theory Spec2Isabelle
  imports Main "HOL-Library.Sublist"
begin

section \<open>JavaScript values and errors\<close>

text \<open>
  The values that \<^verbatim>\<open>JSON.parse\<close> can produce. Numbers are kept as integers: no
  operation below computes with the numbers of a response. An object is the list of its
  members in the order of the text; on a repeated name the last member wins, as
  \<^verbatim>\<open>JSON.parse\<close> has it.
\<close>

datatype json =
    JNull
  | JBool bool
  | JNum int
  | JStr string
  | JArr "json list"
  | JObj "(string \<times> json) list"

text \<open>
  \<open>Error v\<close> is \<^verbatim>\<open>new Error(v)\<close>; \<open>TypeError\<close> is what the engine throws on a
  property read of \<^verbatim>\<open>null\<close> and on a call of something that is no function;
  \<open>SyntaxError\<close> is what \<^verbatim>\<open>JSON.parse\<close> throws; \<open>TransportError\<close> is the
  \<^verbatim>\<open>err\<close> that the HTTP client hands to its callback.
\<close>

datatype js_error =
    Error json
  | TypeError
  | SyntaxError
  | TransportError string

text \<open>
  How a call ends. For the promise variants \<open>Resolved\<close> and \<open>Rejected\<close> are
  \<^verbatim>\<open>deferred.resolve\<close> and \<^verbatim>\<open>deferred.reject\<close>; for the callback variant they
  are \<^verbatim>\<open>cb(null, v)\<close> and \<^verbatim>\<open>cb(e)\<close>. \<open>Thrown e\<close> is an exception thrown
  inside the I/O callback: nothing catches it there, and the promise is never settled
  (the callback never called).
\<close>

datatype ('e, 'a) outcome =
    Resolved 'a
  | Rejected 'e
  | Thrown 'e

text \<open>\<^verbatim>\<open>s.indexOf(t)\<close> on strings: the first position where \<open>t\<close> starts, or \<open>-1\<close>.\<close>

fun indexOf_from :: "string \<Rightarrow> string \<Rightarrow> nat \<Rightarrow> int" where
  "indexOf_from [] t k = (if t = [] then int k else - 1)"
| "indexOf_from (c # s) t k =
     (if prefix t (c # s) then int k else indexOf_from s t (Suc k))"

definition indexOf :: "string \<Rightarrow> string \<Rightarrow> int" where
  "indexOf s t = indexOf_from s t 0"

text \<open>
  \<^verbatim>\<open>a.indexOf(v)\<close> on arrays, for a string \<open>v\<close>: the first element strictly equal to
  \<open>v\<close>, which for a string is an element that is the same string.
\<close>

fun array_indexOf_from :: "json list \<Rightarrow> json \<Rightarrow> nat \<Rightarrow> int" where
  "array_indexOf_from [] v k = - 1"
| "array_indexOf_from (x # xs) v k =
     (if x = v then int k else array_indexOf_from xs v (Suc k))"

text \<open>The member \<open>k\<close> of an object: the last one of that name.\<close>

definition member :: "(string \<times> json) list \<Rightarrow> string \<Rightarrow> json option" where
  "member fs k = map_of (rev fs) k"

text \<open>
  \<^verbatim>\<open>body.hasOwnProperty('error')\<close> together with the read \<^verbatim>\<open>body.error\<close> that
  follows it: \<open>Inl TypeError\<close> on \<^verbatim>\<open>null\<close>, \<open>Inr None\<close> when the value has no own
  property of that name (every value that is not an object, and an object without the
  member), \<open>Inr (Some e)\<close> with the member's value otherwise. An object with a member
  named \<open>hasOwnProperty\<close> hides the method of that name behind a value that is no
  function, and the call is a \<open>TypeError\<close>.
\<close>

fun own_error :: "json \<Rightarrow> js_error + json option" where
  "own_error JNull = Inl TypeError"
| "own_error (JObj fs) =
     (if member fs ''hasOwnProperty'' = None then Inr (member fs ''error'')
      else Inl TypeError)"
| "own_error _ = Inr None"

text \<open>
  \<^verbatim>\<open>body.error.indexOf('Failed to grab locks')\<close>: the string search on a string, the
  element search on an array, and a \<open>TypeError\<close> on every other value (a read of
  \<^verbatim>\<open>null\<close>, or no function of that name).
\<close>

definition lock_text :: string where
  "lock_text = ''Failed to grab locks''"

fun error_indexOf :: "json \<Rightarrow> js_error + int" where
  "error_indexOf (JStr s) = Inr (indexOf s lock_text)"
| "error_indexOf (JArr xs) = Inr (array_indexOf_from xs (JStr lock_text) 0)"
| "error_indexOf _ = Inl TypeError"

section \<open>The Dropbox client\<close>

record config =
  client_id :: string
  client_secret :: string
  redirect_uri :: string

record dropbox =
  clientID :: string
  clientSecret :: string
  redirectUri :: string
  maxRetry :: int

definition Dropbox :: "config \<Rightarrow> dropbox" where
  "Dropbox c =
     \<lparr>clientID = client_id c, clientSecret = client_secret c,
      redirectUri = redirect_uri c, maxRetry = 5\<rparr>"

text \<open>
  The argument of \<^verbatim>\<open>saveUrlP\<close> and \<^verbatim>\<open>saveUrl\<close>. \<open>retry\<close> is \<open>None\<close> while the
  caller has not set it; the counts are integers.
\<close>

record params =
  accessToken :: string
  path :: string
  url :: string
  retry :: "int option"

text \<open>
  The request that goes out: the path and the source URL (which the code escapes with
  \<^verbatim>\<open>encodeURIComponent\<close> and \<^verbatim>\<open>querystring.stringify\<close>) and the bearer token.
\<close>

record request =
  save_path :: string
  save_url :: string
  bearer :: string

definition options :: "params \<Rightarrow> request" where
  "options p = \<lparr>save_path = path p, save_url = url p, bearer = accessToken p\<rparr>"

text \<open>\<^verbatim>\<open>params.retry || 0\<close>: zero for a missing count (and for zero itself).\<close>

definition retry_or_0 :: "int option \<Rightarrow> int" where
  "retry_or_0 r = (case r of None \<Rightarrow> 0 | Some n \<Rightarrow> if n = 0 then 0 else n)"

text \<open>
  What the HTTP client hands to the callback of \<^verbatim>\<open>saveUrlP\<close>: an error, or the body.
  The client is asked for JSON (\<^verbatim>\<open>json: true\<close>): the body is the parsed value, and
  the text itself (a \<open>JStr\<close>) when the text does not parse.
\<close>

datatype reply = Err js_error | Body json

text \<open>The lines the code logs, and the rest of what a run leaves behind.\<close>

datatype event = Retrying int | Completed int

record world =
  sent :: nat
  delays :: "int list"
  logged :: "event list"

definition world0 :: world where
  "world0 = \<lparr>sent = 0, delays = [], logged = []\<rparr>"

text \<open>
  \<^verbatim>\<open>saveUrlP\<close>. The provider is a function of the number of requests sent before and
  of the request. A run that sends requests forever has no result: \<open>None\<close>.
\<close>

partial_function (option) saveUrlP ::
  "dropbox \<Rightarrow> (nat \<Rightarrow> request \<Rightarrow> reply) \<Rightarrow> params \<Rightarrow> world
     \<Rightarrow> ((js_error, json) outcome \<times> params \<times> world) option"
where
  "saveUrlP this provider p w =
     (let p1 = p\<lparr>retry := Some (retry_or_0 (retry p))\<rparr>;
          w1 = w\<lparr>sent := Suc (sent w)\<rparr>
      in case provider (sent w) (options p1) of
           Err err \<Rightarrow> Some (Thrown err, p1, w1)
         | Body body \<Rightarrow>
             (case own_error body of
                Inl e \<Rightarrow> Some (Thrown e, p1, w1)
              | Inr (Some error) \<Rightarrow>
                  (case error_indexOf error of
                     Inl e \<Rightarrow> Some (Thrown e, p1, w1)
                   | Inr i \<Rightarrow>
                       if i \<ge> 0 then
                         (let n = retry_or_0 (retry p) + 1;
                              p2 = p1\<lparr>retry := Some n\<rparr>
                          in if n = maxRetry this
                             then Some (Rejected (Error (JStr ''Retries failed'')), p2, w1)
                             else saveUrlP this provider p2
                                    (w1\<lparr>logged := logged w1 @ [Retrying n],
                                        delays := delays w1 @ [300 * n]\<rparr>))
                       else Some (Rejected (Error error), p1, w1))
              | Inr None \<Rightarrow>
                  Some (Resolved body, p1,
                        if retry_or_0 (retry p) > 0
                        then w1\<lparr>logged := logged w1 @ [Completed (retry_or_0 (retry p))]\<rparr>
                        else w1)))"

declare saveUrlP.simps [code]

text \<open>
  \<^verbatim>\<open>saveUrl\<close>, the callback variant. It reads the response text itself and parses
  it: \<open>parse\<close> is \<^verbatim>\<open>JSON.parse\<close>, with \<open>None\<close> where it throws. The provider
  gives the text of each response (this variant has no handler for a request that
  fails on the way, and the model is of responses that arrive). It logs the completion
  only.
\<close>

partial_function (option) saveUrl ::
  "dropbox \<Rightarrow> (string \<Rightarrow> json option) \<Rightarrow> (nat \<Rightarrow> request \<Rightarrow> string) \<Rightarrow> params \<Rightarrow> world
     \<Rightarrow> ((js_error, json) outcome \<times> params \<times> world) option"
where
  "saveUrl this parse provider p w =
     (let p1 = p\<lparr>retry := Some (retry_or_0 (retry p))\<rparr>;
          w1 = w\<lparr>sent := Suc (sent w)\<rparr>
      in case parse (provider (sent w) (options p1)) of
           None \<Rightarrow> Some (Rejected SyntaxError, p1, w1)
         | Some response \<Rightarrow>
             (case own_error response of
                Inl e \<Rightarrow> Some (Thrown e, p1, w1)
              | Inr (Some error) \<Rightarrow>
                  (case error_indexOf error of
                     Inl e \<Rightarrow> Some (Thrown e, p1, w1)
                   | Inr i \<Rightarrow>
                       if i \<ge> 0 then
                         (let n = retry_or_0 (retry p) + 1;
                              p2 = p1\<lparr>retry := Some n\<rparr>
                          in if n = maxRetry this
                             then Some (Rejected (Error (JStr ''Retries failed'')), p2, w1)
                             else saveUrl this parse provider p2
                                    (w1\<lparr>delays := delays w1 @ [300 * n]\<rparr>))
                       else Some (Rejected (Error error), p1, w1))
              | Inr None \<Rightarrow>
                  Some (Resolved response, p1,
                        if retry_or_0 (retry p) > 0
                        then w1\<lparr>logged := logged w1 @ [Completed (retry_or_0 (retry p))]\<rparr>
                        else w1)))"

declare saveUrl.simps [code]

text \<open>
  The provider's lock-contention response: an object (with no member that hides
  \<open>hasOwnProperty\<close>) whose \<open>error\<close> member is a string that contains \<open>lock_text\<close>.
  A pending response is an object without an \<open>error\<close> member, such as
  \<^verbatim>\<open>{"status": "PENDING", "job": "1mYs8ReIEScAAAAAAAAmIQ"}\<close>.
\<close>

definition lock_error :: "json \<Rightarrow> bool" where
  "lock_error b =
     (case b of
        JObj fs \<Rightarrow>
          member fs ''hasOwnProperty'' = None \<and>
          (case member fs ''error'' of
             Some (JStr s) \<Rightarrow> sublist lock_text s
           | _ \<Rightarrow> False)
      | _ \<Rightarrow> False)"

definition pending :: "string \<Rightarrow> json" where
  "pending j = JObj [(''status'', JStr ''PENDING''), (''job'', JStr j)]"

text \<open>The delays and log lines of the retries numbered \<open>a + 1\<close> to \<open>a + k\<close>.\<close>

definition backoff :: "int \<Rightarrow> nat \<Rightarrow> int list" where
  "backoff a k = map (\<lambda>j. 300 * (a + int j)) [1..<Suc k]"

definition retrying :: "int \<Rightarrow> nat \<Rightarrow> event list" where
  "retrying a k = map (\<lambda>j. Retrying (a + int j)) [1..<Suc k]"

definition lock_reply :: "reply \<Rightarrow> bool" where
  "lock_reply r = (case r of Body b \<Rightarrow> lock_error b | Err e \<Rightarrow> False)"

text \<open>
  The job and the world after \<open>k\<close> retries: the count raised by \<open>k\<close>, \<open>k\<close> more
  requests sent, and the \<open>k\<close> delays and log lines added.
\<close>

definition after :: "params \<Rightarrow> world \<Rightarrow> nat \<Rightarrow> params \<times> world" where
  "after p w k =
     (p\<lparr>retry := Some (retry_or_0 (retry p) + int k)\<rparr>,
      w\<lparr>sent := sent w + k,
        logged := logged w @ retrying (retry_or_0 (retry p)) k,
        delays := delays w @ backoff (retry_or_0 (retry p)) k\<rparr>)"

section \<open>The storage layer\<close>

subsection \<open>The Redis server\<close>

text \<open>
  The keys of the server hold either a string that is an integer (the only strings this
  code writes) or a sorted set, a map from members to scores. The scores the code
  writes are clock readings in milliseconds, integers. The model is a server that is
  connected: the errors are the ones the server answers with.
\<close>

datatype rvalue = RInt int | RZSet "string \<rightharpoonup> int"

type_synonym redis = "string \<rightharpoonup> rvalue"

datatype redis_error = WrongType | WrongArity | NotAnInteger | Overflow

text \<open>The signed 64-bit range of the server's integers.\<close>

definition int64 :: "int \<Rightarrow> bool" where
  "int64 n = (- (2 ^ 63) \<le> n \<and> n < 2 ^ 63)"

text \<open>
  \<^verbatim>\<open>INCRBY key n\<close>: a missing key counts as 0; the reply is the new value. The server
  refuses an increment outside its integers, a key of another type, and a result outside
  its integers, and then changes nothing.
\<close>

definition incrby :: "redis \<Rightarrow> string \<Rightarrow> int \<Rightarrow> redis_error + int \<times> redis" where
  "incrby st k n =
     (if \<not> int64 n then Inl NotAnInteger
      else case st k of
             None \<Rightarrow> Inr (n, st(k \<mapsto> RInt n))
           | Some (RZSet z) \<Rightarrow> Inl WrongType
           | Some (RInt v) \<Rightarrow>
               if int64 (v + n) then Inr (v + n, st(k \<mapsto> RInt (v + n)))
               else Inl Overflow)"

text \<open>The decimal text of an integer, as the server writes a score or a number.\<close>

fun digits :: "nat \<Rightarrow> string" where
  "digits n =
     (if n < 10 then [''0123456789'' ! n]
      else digits (n div 10) @ [''0123456789'' ! (n mod 10)])"

declare digits.simps [simp del]

definition decimal :: "int \<Rightarrow> string" where
  "decimal i = (if i < 0 then CHR ''-'' # digits (nat (- i)) else digits (nat i))"

text \<open>
  \<^verbatim>\<open>GET key\<close> and \<^verbatim>\<open>ZSCORE key member\<close>: the reply is a text, or nil (\<open>None\<close>)
  for a missing key or member.
\<close>

definition get :: "redis \<Rightarrow> string \<Rightarrow> redis_error + string option" where
  "get st k =
     (case st k of
        None \<Rightarrow> Inr None
      | Some (RInt v) \<Rightarrow> Inr (Some (decimal v))
      | Some (RZSet z) \<Rightarrow> Inl WrongType)"

definition zscore :: "redis \<Rightarrow> string \<Rightarrow> string \<Rightarrow> redis_error + string option" where
  "zscore st k m =
     (case st k of
        None \<Rightarrow> Inr None
      | Some (RInt v) \<Rightarrow> Inl WrongType
      | Some (RZSet z) \<Rightarrow> Inr (map_option decimal (z m)))"

text \<open>
  \<^verbatim>\<open>ZADD key score member [score member ...]\<close>: each member is added, or its score
  replaced. The command needs one pair at least. The reply, a count, is not read by the
  code, so the model returns the new store only.
\<close>

fun zadd_all :: "(string \<rightharpoonup> int) \<Rightarrow> (int \<times> string) list \<Rightarrow> (string \<rightharpoonup> int)" where
  "zadd_all z [] = z"
| "zadd_all z ((score, m) # ps) = zadd_all (z(m \<mapsto> score)) ps"

definition zadd :: "redis \<Rightarrow> string \<Rightarrow> (int \<times> string) list \<Rightarrow> redis_error + redis" where
  "zadd st k ps =
     (if ps = [] then Inl WrongArity
      else case st k of
             None \<Rightarrow> Inr (st(k \<mapsto> RZSet (zadd_all Map.empty ps)))
           | Some (RInt v) \<Rightarrow> Inl WrongType
           | Some (RZSet z) \<Rightarrow> Inr (st(k \<mapsto> RZSet (zadd_all z ps))))"

text \<open>\<^verbatim>\<open>DEL key\<close>: the key is gone, whatever it held.\<close>

definition del :: "redis \<Rightarrow> string \<Rightarrow> redis" where
  "del st k = st(k := None)"

subsection \<open>The storage object\<close>

text \<open>User and media identifiers are the texts that JavaScript concatenates or sends.\<close>

definition getRedisCacheKey :: "string \<Rightarrow> string" where
  "getRedisCacheKey userID = ''picbox.'' @ userID @ ''.saved''"

definition getUserSavedCountKey :: "string \<Rightarrow> string" where
  "getUserSavedCountKey userID = ''picbox.'' @ userID @ ''.saved.count''"

definition totalSavedCountKey :: string where
  "totalSavedCountKey = ''picbox.total.saved.count''"

text \<open>
  \<^verbatim>\<open>!!reply\<close>: an integer reply is true unless it is 0; a text reply is true unless
  it is nil or empty.
\<close>

definition truthy_int :: "int \<Rightarrow> bool" where
  "truthy_int n = (n \<noteq> 0)"

definition truthy_text :: "string option \<Rightarrow> bool" where
  "truthy_text r = (case r of None \<Rightarrow> False | Some s \<Rightarrow> s \<noteq> [])"

text \<open>
  Each operation takes the store and returns how its promise ends, with the store
  after. \<^verbatim>\<open>if (err) throw err\<close> is \<open>Thrown\<close>.
\<close>

definition incUserSavedCount ::
  "redis \<Rightarrow> string \<Rightarrow> int \<Rightarrow> (redis_error, bool) outcome \<times> redis" where
  "incUserSavedCount st userID count =
     (case incrby st (getUserSavedCountKey userID) count of
        Inl err \<Rightarrow> (Thrown err, st)
      | Inr (reply, st') \<Rightarrow> (Resolved (truthy_int reply), st'))"

definition incTotalSavedCount ::
  "redis \<Rightarrow> int \<Rightarrow> (redis_error, bool) outcome \<times> redis" where
  "incTotalSavedCount st count =
     (case incrby st totalSavedCountKey count of
        Inl err \<Rightarrow> (Thrown err, st)
      | Inr (reply, st') \<Rightarrow> (Resolved (truthy_int reply), st'))"

definition getTotalSavedCount ::
  "redis \<Rightarrow> (redis_error, string option) outcome \<times> redis" where
  "getTotalSavedCount st =
     (case get st totalSavedCountKey of
        Inl err \<Rightarrow> (Thrown err, st)
      | Inr reply \<Rightarrow> (Resolved reply, st))"

definition checkMediaSaved ::
  "redis \<Rightarrow> string \<Rightarrow> string \<Rightarrow> (redis_error, bool) outcome \<times> redis" where
  "checkMediaSaved st userID mediaID =
     (case zscore st (getRedisCacheKey userID) mediaID of
        Inl err \<Rightarrow> (Thrown err, st)
      | Inr reply \<Rightarrow> (Resolved (truthy_text reply), st))"

text \<open>
  The second argument of \<^verbatim>\<open>saveLikedMedia\<close> is an array or one identifier; the third
  may be missing (\<open>None\<close>); \<open>now\<close> is the reading of \<^verbatim>\<open>Date.now()\<close>.
\<close>

datatype media = One string | Many "string list"

definition media_list :: "media \<Rightarrow> string list" where
  "media_list mediaIDArr = (case mediaIDArr of One m \<Rightarrow> [m] | Many ms \<Rightarrow> ms)"

definition saveLikedMedia ::
  "redis \<Rightarrow> string \<Rightarrow> media \<Rightarrow> bool option \<Rightarrow> int \<Rightarrow> (redis_error, unit) outcome \<times> redis" where
  "saveLikedMedia st userID mediaIDArr replace now =
     (let savedLikesKey = getRedisCacheKey userID;
          score = now;
          args = map (\<lambda>mediaID. (score, mediaID)) (media_list mediaIDArr)
      in if replace = Some True then
           (let st1 = del st savedLikesKey
            in case zadd st1 savedLikesKey args of
                 Inl err \<Rightarrow> (Thrown err, st1)
               | Inr st2 \<Rightarrow> (Resolved (), st2))
         else
           (case zadd st savedLikesKey args of
              Inl err \<Rightarrow> (Thrown err, st)
            | Inr st2 \<Rightarrow> (Resolved (), st2)))"

definition deleteLikedCache :: "redis \<Rightarrow> string \<Rightarrow> (redis_error, unit) outcome \<times> redis" where
  "deleteLikedCache st userID = (Resolved (), del st (getRedisCacheKey userID))"

text \<open>The operations on the store as values, and a history of them.\<close>

datatype call =
    IncUser string int
  | IncTotal int
  | GetTotal
  | Check string string
  | Save string media "bool option" int
  | Delete string

fun exec :: "redis \<Rightarrow> call \<Rightarrow> redis" where
  "exec st (IncUser u n) = snd (incUserSavedCount st u n)"
| "exec st (IncTotal n) = snd (incTotalSavedCount st n)"
| "exec st GetTotal = snd (getTotalSavedCount st)"
| "exec st (Check u m) = snd (checkMediaSaved st u m)"
| "exec st (Save u ms r now) = snd (saveLikedMedia st u ms r now)"
| "exec st (Delete u) = snd (deleteLikedCache st u)"

definition run :: "redis \<Rightarrow> call list \<Rightarrow> redis" where
  "run st cs = foldl exec st cs"

text \<open>
  What a key holds, read as a counter (0 for a missing key) and as a user's saved set
  (empty for a missing key).
\<close>

definition counter :: "redis \<Rightarrow> string \<Rightarrow> int" where
  "counter st k = (case st k of Some (RInt v) \<Rightarrow> v | _ \<Rightarrow> 0)"

definition saved_set :: "redis \<Rightarrow> string \<Rightarrow> (string \<rightharpoonup> int)" where
  "saved_set st userID =
     (case st (getRedisCacheKey userID) of Some (RZSet z) \<Rightarrow> z | _ \<Rightarrow> Map.empty)"

definition holds_int :: "redis \<Rightarrow> string \<Rightarrow> bool" where
  "holds_int st k = (case st k of Some (RInt v) \<Rightarrow> True | _ \<Rightarrow> False)"

definition holds_zset :: "redis \<Rightarrow> string \<Rightarrow> bool" where
  "holds_zset st k = (case st k of Some (RZSet z) \<Rightarrow> True | _ \<Rightarrow> False)"

text \<open>A call that adds to a counter less than nothing, and one that saves \<open>m\<close> for \<open>u\<close>.\<close>

fun decrements :: "call \<Rightarrow> bool" where
  "decrements (IncUser u n) = (n < 0)"
| "decrements (IncTotal n) = (n < 0)"
| "decrements _ = False"

fun inserts :: "string \<Rightarrow> string \<Rightarrow> call \<Rightarrow> bool" where
  "inserts u m (Save u' ms r now) = (u' = u \<and> m \<in> set (media_list ms))"
| "inserts u m _ = False"

text \<open>The same for \<^verbatim>\<open>saveUrl\<close>, which parses the text of the response itself.\<close>

definition lock_parsed :: "(string \<Rightarrow> json option) \<Rightarrow> string \<Rightarrow> bool" where
  "lock_parsed parse t = (case parse t of Some b \<Rightarrow> lock_error b | None \<Rightarrow> False)"

section \<open>Sample inputs\<close>

text \<open>
  The provider's lock-contention response as the forum thread cited in the code quotes
  it, a job as a caller hands it over, and a configuration.
\<close>

definition lock_body :: json where
  "lock_body = JObj [(''error'', JStr ''Failed to grab locks, try again'')]"

definition job0 :: params where
  "job0 = \<lparr>accessToken = ''token'', path = ''/photos/a.jpg'',
            url = ''https://example.com/a.jpg'', retry = None\<rparr>"

definition config0 :: config where
  "config0 = \<lparr>client_id = ''id'', client_secret = ''secret'', redirect_uri = ''uri''\<rparr>"


text \<open>
  A response that reports another error, and a response text that is no JSON.
\<close>

definition oauth_body :: json where
  "oauth_body = JObj [(''error'', JStr ''Invalid OAuth token'')]"

definition bad_gateway :: string where
  "bad_gateway = ''<html>502 Bad Gateway</html>''"

text \<open>A history of calls on the store, none of which adds a negative count.\<close>

definition history0 :: "call list" where
  "history0 =
     [IncUser ''7'' 2, Save ''7'' (Many [''m1'', ''m2'']) None 1000, IncTotal 2,
      Check ''7'' ''m1'', Delete ''7'', Save ''7.saved.count'' (One ''m3'') (Some True) 2000,
      GetTotal, IncUser ''7'' 0, IncTotal 1]"

text \<open>A store in which one user has 21 saved entries, all of the same age.\<close>

definition letters :: "string list" where
  "letters = [''a'', ''b'', ''c'', ''d'', ''e'', ''f'', ''g'', ''h'', ''i'', ''j'', ''k'',
              ''l'', ''m'', ''n'', ''o'', ''p'', ''q'', ''r'', ''s'', ''t'', ''u'']"

definition store21 :: redis where
  "store21 = [getRedisCacheKey ''U1'' \<mapsto> RZSet (map_of (map (\<lambda>m. (m, 1000)) letters))]"

section \<open>The retry loop of \<^verbatim>\<open>saveUrlP\<close>\<close>


lemma indexOf_from_sublist: "0 \<le> indexOf_from s t k \<longleftrightarrow> sublist t s"
  by (induction s arbitrary: k) (auto simp: sublist_Cons_right)

lemma indexOf_sublist: "0 \<le> indexOf s t \<longleftrightarrow> sublist t s"
  by (simp add: indexOf_def indexOf_from_sublist)

lemma lock_errorD:
  assumes "lock_error b" shows "\<exists>e i. own_error b = Inr (Some e) \<and> error_indexOf e = Inr i \<and> 0 \<le> i"
proof (cases b)
  case (JObj fs)
  show ?thesis
  proof (cases "member fs ''error''")
    case None
    with JObj assms show ?thesis by (simp add: lock_error_def)
  next
    case (Some e)
    with JObj assms show ?thesis
      by (cases e) (simp_all add: lock_error_def indexOf_sublist)
  qed
qed (use assms in \<open>simp_all add: lock_error_def\<close>)

lemma retry_or_0_Some [simp]: "retry_or_0 (Some n) = n"
  by (simp add: retry_or_0_def)

lemma options_retry [simp]: "options (p\<lparr>retry := r\<rparr>) = options p"
  by (simp add: options_def)

lemma saveUrlP_lock:
  assumes "provider (sent w) (options p) = Body b" and "lock_error b"
  shows "saveUrlP this provider p w =
    (if retry_or_0 (retry p) + 1 = maxRetry this
     then Some (Rejected (Error (JStr ''Retries failed'')),
                p\<lparr>retry := Some (retry_or_0 (retry p) + 1)\<rparr>, w\<lparr>sent := Suc (sent w)\<rparr>)
     else saveUrlP this provider (p\<lparr>retry := Some (retry_or_0 (retry p) + 1)\<rparr>)
            (w\<lparr>sent := Suc (sent w),
               logged := logged w @ [Retrying (retry_or_0 (retry p) + 1)],
               delays := delays w @ [300 * (retry_or_0 (retry p) + 1)]\<rparr>))"
proof -
  from lock_errorD [OF assms(2)] obtain e i
    where "own_error b = Inr (Some e)" "error_indexOf e = Inr i" "0 \<le> i" by blast
  then show ?thesis
    using assms(1) by (subst saveUrlP.simps) (simp add: Let_def)
qed


lemma saveUrlP_lock_reply:
  assumes "lock_reply (provider (sent w) (options p))"
  shows "saveUrlP this provider p w =
    (if retry_or_0 (retry p) + 1 = maxRetry this
     then Some (Rejected (Error (JStr ''Retries failed'')),
                p\<lparr>retry := Some (retry_or_0 (retry p) + 1)\<rparr>, w\<lparr>sent := Suc (sent w)\<rparr>)
     else saveUrlP this provider (p\<lparr>retry := Some (retry_or_0 (retry p) + 1)\<rparr>)
            (w\<lparr>sent := Suc (sent w),
               logged := logged w @ [Retrying (retry_or_0 (retry p) + 1)],
               delays := delays w @ [300 * (retry_or_0 (retry p) + 1)]\<rparr>))"
  using assms saveUrlP_lock [of provider w p _ this]
  by (auto simp: lock_reply_def split: reply.splits)

lemma saveUrlP_normal:
  "saveUrlP this provider (p\<lparr>retry := Some (retry_or_0 (retry p))\<rparr>) w = saveUrlP this provider p w"
  by (rule trans [OF saveUrlP.simps], rule trans [OF _ saveUrlP.simps [symmetric]])
    (simp add: Let_def split: reply.split sum.split option.split)

lemma backoff_0 [simp]: "backoff a 0 = []"
  by (simp add: backoff_def)

lemma backoff_Suc: "backoff a (Suc k) = backoff a k @ [300 * (a + int (Suc k))]"
  by (simp add: backoff_def)

lemma retrying_0 [simp]: "retrying a 0 = []"
  by (simp add: retrying_def)

lemma retrying_Suc: "retrying a (Suc k) = retrying a k @ [Retrying (a + int (Suc k))]"
  by (simp add: retrying_def)

lemma saveUrlP_lock_next:
  assumes "lock_reply (provider (sent w + k) (options p))"
    and "retry_or_0 (retry p) + int k + 1 \<noteq> maxRetry this"
  shows "saveUrlP this provider (fst (after p w k)) (snd (after p w k)) =
         saveUrlP this provider (fst (after p w (Suc k))) (snd (after p w (Suc k)))"
proof -
  have "lock_reply (provider (sent (snd (after p w k))) (options (fst (after p w k))))"
    using assms(1) by (simp add: after_def)
  from saveUrlP_lock_reply [of provider "snd (after p w k)" "fst (after p w k)" this, OF this]
  show ?thesis
    using assms(2) by (simp add: after_def backoff_Suc retrying_Suc ac_simps)
qed

lemma saveUrlP_lock_last:
  assumes "lock_reply (provider (sent w + k) (options p))"
    and "retry_or_0 (retry p) + int k + 1 = maxRetry this"
  shows "saveUrlP this provider (fst (after p w k)) (snd (after p w k)) =
         Some (Rejected (Error (JStr ''Retries failed'')),
               p\<lparr>retry := Some (maxRetry this)\<rparr>,
               w\<lparr>sent := sent w + Suc k,
                 logged := logged w @ retrying (retry_or_0 (retry p)) k,
                 delays := delays w @ backoff (retry_or_0 (retry p)) k\<rparr>)"
proof -
  have "lock_reply (provider (sent (snd (after p w k))) (options (fst (after p w k))))"
    using assms(1) by (simp add: after_def)
  from saveUrlP_lock_reply [of provider "snd (after p w k)" "fst (after p w k)" this, OF this]
  show ?thesis
    using assms(2) by (simp add: after_def ac_simps)
qed

lemma saveUrlP_locks:
  assumes "\<forall>i<k. lock_reply (provider (sent w + i) (options p))"
    and "retry_or_0 (retry p) + int k < maxRetry this \<or> maxRetry this \<le> retry_or_0 (retry p)"
  shows "saveUrlP this provider p w =
         saveUrlP this provider (fst (after p w k)) (snd (after p w k))"
  using assms
proof (induction k)
  case 0
  show ?case by (simp add: after_def saveUrlP_normal)
next
  case (Suc k)
  have "saveUrlP this provider p w = saveUrlP this provider (fst (after p w k)) (snd (after p w k))"
    using Suc by auto
  also have "\<dots> = saveUrlP this provider (fst (after p w (Suc k))) (snd (after p w (Suc k)))"
    using Suc.prems by (intro saveUrlP_lock_next) auto
  finally show ?case .
qed

lemma saveUrlP_exhausted:
  assumes "\<forall>i. lock_reply (provider i (options p))"
    and "retry_or_0 (retry p) < maxRetry this"
  shows "saveUrlP this provider p w =
         Some (Rejected (Error (JStr ''Retries failed'')),
               p\<lparr>retry := Some (maxRetry this)\<rparr>,
               w\<lparr>sent := sent w + nat (maxRetry this - retry_or_0 (retry p)),
                 logged := logged w @ retrying (retry_or_0 (retry p)) (nat (maxRetry this - retry_or_0 (retry p)) - 1),
                 delays := delays w @ backoff (retry_or_0 (retry p)) (nat (maxRetry this - retry_or_0 (retry p)) - 1)\<rparr>)"
proof -
  define k where "k = nat (maxRetry this - retry_or_0 (retry p)) - 1"
  have k: "retry_or_0 (retry p) + int k + 1 = maxRetry this"
    using assms(2) by (simp add: k_def)
  have k': "Suc k = nat (maxRetry this - retry_or_0 (retry p))"
    using assms(2) by (simp add: k_def)
  have "saveUrlP this provider p w = saveUrlP this provider (fst (after p w k)) (snd (after p w k))"
    using assms(1) k by (intro saveUrlP_locks) auto
  also have "\<dots> = Some (Rejected (Error (JStr ''Retries failed'')),
               p\<lparr>retry := Some (maxRetry this)\<rparr>,
               w\<lparr>sent := sent w + Suc k,
                 logged := logged w @ retrying (retry_or_0 (retry p)) k,
                 delays := delays w @ backoff (retry_or_0 (retry p)) k\<rparr>)"
    using assms(1) k by (intro saveUrlP_lock_last) auto
  finally show ?thesis
    unfolding k' by (simp add: k_def)
qed

lemma saveUrlP_diverges:
  assumes "saveUrlP this provider p w = Some y"
  shows "\<not> ((\<forall>i. lock_reply (provider i (options p))) \<and> maxRetry this \<le> retry_or_0 (retry p))"
  using assms
proof (induction rule: saveUrlP.raw_induct [rotated, consumes 1])
  case (1 saveUrlP' this provider p w y)
  show ?case
  proof
    assume h: "(\<forall>i. lock_reply (provider i (options p))) \<and> maxRetry this \<le> retry_or_0 (retry p)"
    then have "lock_reply (provider (sent w) (options p))" by simp
    then obtain b where b: "provider (sent w) (options p) = Body b" "lock_error b"
      by (cases "provider (sent w) (options p)") (simp_all add: lock_reply_def)
    from lock_errorD [OF b(2)] obtain e i
      where e: "own_error b = Inr (Some e)" "error_indexOf e = Inr i" "0 \<le> i" by blast
    from 1(2) b e h
    have "saveUrlP' this provider (p\<lparr>retry := Some (retry_or_0 (retry p) + 1)\<rparr>)
            (w\<lparr>sent := Suc (sent w),
               logged := logged w @ [Retrying (retry_or_0 (retry p) + 1)],
               delays := delays w @ [300 * (retry_or_0 (retry p) + 1)]\<rparr>) = Some y"
      by (simp add: Let_def)
    from 1(1) [OF this] h show False by simp
  qed
qed


lemma backoff_from_0: "backoff 0 k = map (\<lambda>j. 300 * int j) [1..<Suc k]"
  by (simp add: backoff_def)

lemma retrying_from_0: "retrying 0 k = map (\<lambda>j. Retrying (int j)) [1..<Suc k]"
  by (simp add: retrying_def)

lemma sum_list_backoff:
  "sum_list (map (\<lambda>j. 300 * int j) [1..<n]) = 300 * (\<Sum>j = 1..<n. int j)"
  by (simp add: sum_list_distinct_conv_sum_set sum_distrib_left)

lemma retry_or_0_initial: "retry p = None \<or> retry p = Some 0 \<Longrightarrow> retry_or_0 (retry p) = 0"
  by (auto simp: retry_or_0_def)

lemma maxRetry_Dropbox [simp]: "maxRetry (Dropbox c) = 5"
  by (simp add: Dropbox_def)

lemma saveUrlP_no_error:
  assumes "provider (sent w) (options p) = Body b" and "own_error b = Inr None"
  shows "saveUrlP this provider p w =
         Some (Resolved b, p\<lparr>retry := Some (retry_or_0 (retry p))\<rparr>,
               if 0 < retry_or_0 (retry p)
               then w\<lparr>sent := Suc (sent w), logged := logged w @ [Completed (retry_or_0 (retry p))]\<rparr>
               else w\<lparr>sent := Suc (sent w)\<rparr>)"
  using assms by (subst saveUrlP.simps) (simp add: Let_def)

lemma saveUrlP_other_error:
  assumes "provider (sent w) (options p) = Body b" and "own_error b = Inr (Some e)"
    and "error_indexOf e = Inr i" and "i < 0"
  shows "saveUrlP this provider p w =
         Some (Rejected (Error e), p\<lparr>retry := Some (retry_or_0 (retry p))\<rparr>,
               w\<lparr>sent := Suc (sent w)\<rparr>)"
  using assms by (subst saveUrlP.simps) (simp add: Let_def)

lemma own_error_pending [simp]: "own_error (pending j) = Inr None"
  by (simp add: pending_def member_def)

text \<open>
  Claim C1. A job whose count starts at 0 (or is not set), against a provider that
  answers every request with the lock-contention error: \<^verbatim>\<open>saveUrlP\<close> rejects with
  \<^verbatim>\<open>Retries failed\<close> after exactly \<open>maxRetry\<close> requests; the delay asked for
  before the \<open>k\<close>-th retry is \<open>300 * k\<close> milliseconds, for \<open>k\<close> from 1 to
  \<open>maxRetry - 1\<close>, and their sum is \<open>300 * (1 + 2 + ... + (maxRetry - 1))\<close>. The
  constructor sets \<open>maxRetry\<close> to 5 (\<open>maxRetry_Dropbox\<close>).
\<close>

theorem saveUrlP_retries_exhausted:
  assumes "retry p = None \<or> retry p = Some 0"
    and "\<forall>i. lock_reply (provider i (options p))"
    and "0 < maxRetry this"
  shows "saveUrlP this provider p world0 =
           Some (Rejected (Error (JStr ''Retries failed'')),
                 p\<lparr>retry := Some (maxRetry this)\<rparr>,
                 \<lparr>sent = nat (maxRetry this),
                  delays = map (\<lambda>k. 300 * int k) [1..<nat (maxRetry this)],
                  logged = map (\<lambda>k. Retrying (int k)) [1..<nat (maxRetry this)]\<rparr>)
         \<and> sum_list (map (\<lambda>k. 300 * int k) [1..<nat (maxRetry this)])
             = 300 * (\<Sum>k = 1..<nat (maxRetry this). int k)"
proof -
  have r: "retry_or_0 (retry p) = 0"
    using assms(1) by (rule retry_or_0_initial)
  have n: "Suc (nat (maxRetry this) - 1) = nat (maxRetry this)"
    using assms(3) by simp
  have "saveUrlP this provider p world0 =
           Some (Rejected (Error (JStr ''Retries failed'')),
                 p\<lparr>retry := Some (maxRetry this)\<rparr>,
                 \<lparr>sent = nat (maxRetry this),
                  delays = map (\<lambda>k. 300 * int k) [1..<nat (maxRetry this)],
                  logged = map (\<lambda>k. Retrying (int k)) [1..<nat (maxRetry this)]\<rparr>)"
    using saveUrlP_exhausted [of provider p this world0] assms(2,3) n
    by (simp add: r world0_def backoff_from_0 retrying_from_0)
  then show ?thesis
    by (simp only: sum_list_backoff simp_thms)
qed

lemma lock_error_lock_body [simp]: "lock_error lock_body"
  by (simp add: lock_error_def lock_body_def member_def lock_text_def sublist_Cons_right)

theorem saveUrlP_retries_exhausted_witness:
  "saveUrlP (Dropbox config0) (\<lambda>i rq. Body lock_body) job0 world0 =
     Some (Rejected (Error (JStr ''Retries failed'')), job0\<lparr>retry := Some 5\<rparr>,
           \<lparr>sent = 5, delays = [300, 600, 900, 1200],
            logged = [Retrying 1, Retrying 2, Retrying 3, Retrying 4]\<rparr>)
   \<and> sum_list [300, 600, 900, 1200 :: int] = 300 * (1 + 2 + 3 + 4)"
  using saveUrlP_retries_exhausted [of job0 "\<lambda>i rq. Body lock_body" "Dropbox config0"]
  by (simp add: job0_def lock_reply_def upt_rec)




lemma saveUrlP_accepted:
  assumes "\<forall>i<k. lock_reply (provider (sent w + i) (options p))"
    and "provider (sent w + k) (options p) = Body b"
    and "own_error b = Inr None"
    and "retry_or_0 (retry p) + int k < maxRetry this \<or> maxRetry this \<le> retry_or_0 (retry p)"
  shows "saveUrlP this provider p w =
         Some (Resolved b, p\<lparr>retry := Some (retry_or_0 (retry p) + int k)\<rparr>,
               w\<lparr>sent := Suc (sent w + k),
                 delays := delays w @ backoff (retry_or_0 (retry p)) k,
                 logged := logged w @ retrying (retry_or_0 (retry p)) k @
                   (if 0 < retry_or_0 (retry p) + int k
                    then [Completed (retry_or_0 (retry p) + int k)] else [])\<rparr>)"
proof -
  have "saveUrlP this provider p w = saveUrlP this provider (fst (after p w k)) (snd (after p w k))"
    using assms(1,4) by (rule saveUrlP_locks)
  also have "\<dots> = Some (Resolved b, p\<lparr>retry := Some (retry_or_0 (retry p) + int k)\<rparr>,
               w\<lparr>sent := Suc (sent w + k),
                 delays := delays w @ backoff (retry_or_0 (retry p)) k,
                 logged := logged w @ retrying (retry_or_0 (retry p)) k @
                   (if 0 < retry_or_0 (retry p) + int k
                    then [Completed (retry_or_0 (retry p) + int k)] else [])\<rparr>)"
  proof -
    have "provider (sent (snd (after p w k))) (options (fst (after p w k))) = Body b"
      using assms(2) by (simp add: after_def)
    from saveUrlP_no_error [of provider "snd (after p w k)" "fst (after p w k)" b this, OF this assms(3)]
    show ?thesis by (simp add: after_def)
  qed
  finally show ?thesis .
qed

text \<open>
  Claim C3. A job whose count starts at 0, and \<open>k < maxRetry - 1\<close>: when the provider
  answers the first \<open>k\<close> requests with the lock-contention error and the next one
  with a pending response for job \<open>J\<close>, \<^verbatim>\<open>saveUrlP\<close> resolves with that response
  after \<open>k\<close> retries (\<open>k + 1\<close> requests), having asked for the delays 300, 600, ...,
  \<open>300 * k\<close>. The retries are logged (one line each, and the number used up at the
  end when there were any); the resolved value does not depend on \<open>k\<close>.
\<close>

theorem saveUrlP_pending_after_locks:
  assumes "retry p = None \<or> retry p = Some 0"
    and "int k < maxRetry this - 1"
    and "\<forall>i<k. lock_reply (provider i (options p))"
    and "provider k (options p) = Body (pending J)"
  shows "saveUrlP this provider p world0 =
           Some (Resolved (pending J), p\<lparr>retry := Some (int k)\<rparr>,
                 \<lparr>sent = Suc k,
                  delays = map (\<lambda>j. 300 * int j) [1..<Suc k],
                  logged = map (\<lambda>j. Retrying (int j)) [1..<Suc k] @
                    (if 0 < k then [Completed (int k)] else [])\<rparr>)"
proof -
  have r: "retry_or_0 (retry p) = 0"
    using assms(1) by (rule retry_or_0_initial)
  show ?thesis
    using saveUrlP_accepted [of k provider world0 p "pending J" this] assms(2,3,4)
    by (simp add: r world0_def backoff_from_0 retrying_from_0)
qed

theorem saveUrlP_pending_after_locks_witness:
  "saveUrlP (Dropbox config0) (\<lambda>i rq. if i < 3 then Body lock_body else Body (pending ''J2''))
     job0 world0 =
   Some (Resolved (JObj [(''status'', JStr ''PENDING''), (''job'', JStr ''J2'')]),
         job0\<lparr>retry := Some 3\<rparr>,
         \<lparr>sent = 4, delays = [300, 600, 900],
          logged = [Retrying 1, Retrying 2, Retrying 3, Completed 3]\<rparr>)"
  using saveUrlP_pending_after_locks
    [of job0 3 "Dropbox config0" "\<lambda>i rq. if i < 3 then Body lock_body else Body (pending ''J2'')" "''J2''"]
  by (simp add: job0_def lock_reply_def upt_rec pending_def)


section \<open>The retry loop of \<^verbatim>\<open>saveUrl\<close>\<close>


lemma saveUrl_lock:
  assumes "lock_parsed parse (texts (sent w) (options p))"
  shows "saveUrl this parse texts p w =
    (if retry_or_0 (retry p) + 1 = maxRetry this
     then Some (Rejected (Error (JStr ''Retries failed'')),
                p\<lparr>retry := Some (retry_or_0 (retry p) + 1)\<rparr>, w\<lparr>sent := Suc (sent w)\<rparr>)
     else saveUrl this parse texts (p\<lparr>retry := Some (retry_or_0 (retry p) + 1)\<rparr>)
            (w\<lparr>sent := Suc (sent w),
               delays := delays w @ [300 * (retry_or_0 (retry p) + 1)]\<rparr>))"
proof -
  from assms obtain b where b: "parse (texts (sent w) (options p)) = Some b" "lock_error b"
    by (cases "parse (texts (sent w) (options p))") (simp_all add: lock_parsed_def)
  from lock_errorD [OF b(2)] obtain e i
    where "own_error b = Inr (Some e)" "error_indexOf e = Inr i" "0 \<le> i" by blast
  then show ?thesis
    using b(1) by (subst saveUrl.simps) (simp add: Let_def)
qed

lemma saveUrl_other_error:
  assumes "parse (texts (sent w) (options p)) = Some b" and "own_error b = Inr (Some e)"
    and "error_indexOf e = Inr i" and "i < 0"
  shows "saveUrl this parse texts p w =
         Some (Rejected (Error e), p\<lparr>retry := Some (retry_or_0 (retry p))\<rparr>,
               w\<lparr>sent := Suc (sent w)\<rparr>)"
  using assms by (subst saveUrl.simps) (simp add: Let_def)

lemma saveUrl_malformed:
  assumes "parse (texts (sent w) (options p)) = None"
  shows "saveUrl this parse texts p w =
         Some (Rejected SyntaxError, p\<lparr>retry := Some (retry_or_0 (retry p))\<rparr>,
               w\<lparr>sent := Suc (sent w)\<rparr>)"
  using assms by (subst saveUrl.simps) (simp add: Let_def)

lemma saveUrl_diverges:
  assumes "saveUrl this parse texts p w = Some y"
  shows "\<not> ((\<forall>i. lock_parsed parse (texts i (options p))) \<and> maxRetry this \<le> retry_or_0 (retry p))"
  using assms
proof (induction rule: saveUrl.raw_induct [rotated, consumes 1])
  case (1 saveUrl' this parse texts p w y)
  show ?case
  proof
    assume h: "(\<forall>i. lock_parsed parse (texts i (options p))) \<and> maxRetry this \<le> retry_or_0 (retry p)"
    then have "lock_parsed parse (texts (sent w) (options p))" by simp
    then obtain b where b: "parse (texts (sent w) (options p)) = Some b" "lock_error b"
      by (cases "parse (texts (sent w) (options p))") (simp_all add: lock_parsed_def)
    from lock_errorD [OF b(2)] obtain e i
      where e: "own_error b = Inr (Some e)" "error_indexOf e = Inr i" "0 \<le> i" by blast
    from 1(2) b e h
    have "saveUrl' this parse texts (p\<lparr>retry := Some (retry_or_0 (retry p) + 1)\<rparr>)
            (w\<lparr>sent := Suc (sent w),
               delays := delays w @ [300 * (retry_or_0 (retry p) + 1)]\<rparr>) = Some y"
      by (simp add: Let_def)
    from 1(1) [OF this] h show False by simp
  qed
qed

lemma backoff_Cons: "backoff a (Suc n) = 300 * (a + 1) # backoff (a + 1) n"
proof (induction n)
  case 0
  show ?case by (simp add: backoff_def)
next
  case (Suc n)
  have "backoff a (Suc (Suc n)) = backoff a (Suc n) @ [300 * (a + int (Suc (Suc n)))]"
    by (rule backoff_Suc)
  also have "\<dots> = 300 * (a + 1) # (backoff (a + 1) n @ [300 * (a + 1 + int (Suc n))])"
    by (simp add: Suc.IH algebra_simps)
  also have "\<dots> = 300 * (a + 1) # backoff (a + 1) (Suc n)"
    by (simp only: backoff_Suc)
  finally show ?case .
qed

lemma saveUrl_exhausted:
  assumes "\<forall>i. lock_parsed parse (texts i (options p))"
    and "nat (maxRetry this - retry_or_0 (retry p)) = Suc n"
  shows "saveUrl this parse texts p w =
         Some (Rejected (Error (JStr ''Retries failed'')),
               p\<lparr>retry := Some (maxRetry this)\<rparr>,
               w\<lparr>sent := sent w + Suc n,
                 delays := delays w @ backoff (retry_or_0 (retry p)) n\<rparr>)"
  using assms
proof (induction n arbitrary: p w)
  case 0
  then have "retry_or_0 (retry p) + 1 = maxRetry this" by simp
  moreover have "lock_parsed parse (texts (sent w) (options p))"
    using 0 by simp
  ultimately show ?case
    by (simp add: saveUrl_lock)
next
  case (Suc n)
  let ?p = "p\<lparr>retry := Some (retry_or_0 (retry p) + 1)\<rparr>"
  let ?w = "w\<lparr>sent := Suc (sent w), delays := delays w @ [300 * (retry_or_0 (retry p) + 1)]\<rparr>"
  have ne: "retry_or_0 (retry p) + 1 \<noteq> maxRetry this"
    using Suc.prems(2) by simp
  have "lock_parsed parse (texts (sent w) (options p))"
    using Suc.prems(1) by simp
  then have "saveUrl this parse texts p w = saveUrl this parse texts ?p ?w"
    using ne by (simp add: saveUrl_lock)
  also have "\<dots> = Some (Rejected (Error (JStr ''Retries failed'')),
               ?p\<lparr>retry := Some (maxRetry this)\<rparr>,
               ?w\<lparr>sent := sent ?w + Suc n,
                 delays := delays ?w @ backoff (retry_or_0 (retry ?p)) n\<rparr>)"
    using Suc.prems by (intro Suc.IH) auto
  finally show ?case
    by (simp add: backoff_Cons)
qed


lemma saveUrl_no_error:
  assumes "parse (texts (sent w) (options p)) = Some b" and "own_error b = Inr None"
  shows "saveUrl this parse texts p w =
         Some (Resolved b, p\<lparr>retry := Some (retry_or_0 (retry p))\<rparr>,
               if 0 < retry_or_0 (retry p)
               then w\<lparr>sent := Suc (sent w), logged := logged w @ [Completed (retry_or_0 (retry p))]\<rparr>
               else w\<lparr>sent := Suc (sent w)\<rparr>)"
  using assms by (subst saveUrl.simps) (simp add: Let_def)

lemma saveUrl_accepted:
  assumes "\<forall>i<k. lock_parsed parse (texts (sent w + i) (options p))"
    and "parse (texts (sent w + k) (options p)) = Some b"
    and "own_error b = Inr None"
    and "retry_or_0 (retry p) + int k < maxRetry this \<or> maxRetry this \<le> retry_or_0 (retry p)"
  shows "saveUrl this parse texts p w =
         Some (Resolved b, p\<lparr>retry := Some (retry_or_0 (retry p) + int k)\<rparr>,
               w\<lparr>sent := Suc (sent w + k),
                 delays := delays w @ backoff (retry_or_0 (retry p)) k,
                 logged := logged w @
                   (if 0 < retry_or_0 (retry p) + int k
                    then [Completed (retry_or_0 (retry p) + int k)] else [])\<rparr>)"
  using assms
proof (induction k arbitrary: p w)
  case 0
  then show ?case
    by (simp add: saveUrl_no_error)
next
  case (Suc k)
  let ?p = "p\<lparr>retry := Some (retry_or_0 (retry p) + 1)\<rparr>"
  let ?w = "w\<lparr>sent := Suc (sent w), delays := delays w @ [300 * (retry_or_0 (retry p) + 1)]\<rparr>"
  have ne: "retry_or_0 (retry p) + 1 \<noteq> maxRetry this"
    using Suc.prems(4) by auto
  have "lock_parsed parse (texts (sent w) (options p))"
    using Suc.prems(1) by (auto dest: spec [of _ 0])
  then have "saveUrl this parse texts p w = saveUrl this parse texts ?p ?w"
    using ne by (simp add: saveUrl_lock)
  also have "\<dots> = Some (Resolved b, ?p\<lparr>retry := Some (retry_or_0 (retry ?p) + int k)\<rparr>,
               ?w\<lparr>sent := Suc (sent ?w + k),
                 delays := delays ?w @ backoff (retry_or_0 (retry ?p)) k,
                 logged := logged ?w @
                   (if 0 < retry_or_0 (retry ?p) + int k
                    then [Completed (retry_or_0 (retry ?p) + int k)] else [])\<rparr>)"
  proof (rule Suc.IH)
    show "\<forall>i<k. lock_parsed parse (texts (sent ?w + i) (options ?p))"
      using Suc.prems(1) by auto
    show "parse (texts (sent ?w + k) (options ?p)) = Some b"
      using Suc.prems(2) by simp
    show "own_error b = Inr None" by (rule Suc.prems(3))
    show "retry_or_0 (retry ?p) + int k < maxRetry this \<or> maxRetry this \<le> retry_or_0 (retry ?p)"
      using Suc.prems(4) by auto
  qed
  finally show ?case
    by (simp add: backoff_Cons add.assoc add.commute [of 1])
qed

section \<open>Classification of responses, and the end of the retries\<close>


lemma not_lock_errorD:
  assumes "member fs ''error'' = Some (JStr msg)" and "\<not> sublist lock_text msg"
    and "member fs ''hasOwnProperty'' = None"
  shows "own_error (JObj fs) = Inr (Some (JStr msg)) \<and>
         error_indexOf (JStr msg) = Inr (indexOf msg lock_text) \<and> indexOf msg lock_text < 0"
  using assms indexOf_sublist [of msg lock_text] by simp

lemma lock_error_JObj:
  "member fs ''error'' = Some (JStr msg) \<Longrightarrow> member fs ''hasOwnProperty'' = None \<Longrightarrow>
   lock_error (JObj fs) = sublist lock_text msg"
  by (simp add: lock_error_def)

text \<open>
  Claim C2. A response object with an \<open>error\<close> member that is a string (and with no
  member that hides \<open>hasOwnProperty\<close>) is classified by the content of the message,
  in \<^verbatim>\<open>saveUrlP\<close> and in \<^verbatim>\<open>saveUrl\<close> alike. A message
  that contains \<^verbatim>\<open>Failed to grab locks\<close> is handled as transient: the count goes up
  by one, and unless it has reached \<open>maxRetry\<close> the call goes on with a further
  request after a delay of 300 times the count. Any other message is handed back at
  once as the error with that message, after this one request and with no delay asked
  for.
\<close>

theorem error_classified_by_message:
  assumes "member fs ''error'' = Some (JStr msg)"
    and "provider (sent w) (options p) = Body (JObj fs)"
    and "parse (texts (sent w) (options p)) = Some (JObj fs)"
    and "member fs ''hasOwnProperty'' = None"
  shows "saveUrlP this provider p w =
           (if sublist lock_text msg
            then if retry_or_0 (retry p) + 1 = maxRetry this
                 then Some (Rejected (Error (JStr ''Retries failed'')),
                            p\<lparr>retry := Some (retry_or_0 (retry p) + 1)\<rparr>,
                            w\<lparr>sent := Suc (sent w)\<rparr>)
                 else saveUrlP this provider (p\<lparr>retry := Some (retry_or_0 (retry p) + 1)\<rparr>)
                        (w\<lparr>sent := Suc (sent w),
                           logged := logged w @ [Retrying (retry_or_0 (retry p) + 1)],
                           delays := delays w @ [300 * (retry_or_0 (retry p) + 1)]\<rparr>)
            else Some (Rejected (Error (JStr msg)),
                       p\<lparr>retry := Some (retry_or_0 (retry p))\<rparr>,
                       w\<lparr>sent := Suc (sent w)\<rparr>))
       \<and> saveUrl this parse texts p w =
           (if sublist lock_text msg
            then if retry_or_0 (retry p) + 1 = maxRetry this
                 then Some (Rejected (Error (JStr ''Retries failed'')),
                            p\<lparr>retry := Some (retry_or_0 (retry p) + 1)\<rparr>,
                            w\<lparr>sent := Suc (sent w)\<rparr>)
                 else saveUrl this parse texts (p\<lparr>retry := Some (retry_or_0 (retry p) + 1)\<rparr>)
                        (w\<lparr>sent := Suc (sent w),
                           delays := delays w @ [300 * (retry_or_0 (retry p) + 1)]\<rparr>)
            else Some (Rejected (Error (JStr msg)),
                       p\<lparr>retry := Some (retry_or_0 (retry p))\<rparr>,
                       w\<lparr>sent := Suc (sent w)\<rparr>))"
proof (cases "sublist lock_text msg")
  case True
  then have l: "lock_error (JObj fs)"
    using assms(1,4) by (simp add: lock_error_JObj)
  have "lock_reply (provider (sent w) (options p))"
    using l assms(2) by (simp add: lock_reply_def)
  moreover have "lock_parsed parse (texts (sent w) (options p))"
    using l assms(3) by (simp add: lock_parsed_def)
  ultimately show ?thesis
    using True saveUrlP_lock_reply [of provider w p this] saveUrl_lock [of parse texts w p this]
    by simp
next
  case False
  note e = not_lock_errorD [OF assms(1) False assms(4)]
  have "saveUrlP this provider p w =
          Some (Rejected (Error (JStr msg)), p\<lparr>retry := Some (retry_or_0 (retry p))\<rparr>,
                w\<lparr>sent := Suc (sent w)\<rparr>)"
    using assms(2) e by (intro saveUrlP_other_error) auto
  moreover have "saveUrl this parse texts p w =
          Some (Rejected (Error (JStr msg)), p\<lparr>retry := Some (retry_or_0 (retry p))\<rparr>,
                w\<lparr>sent := Suc (sent w)\<rparr>)"
    using assms(3) e by (intro saveUrl_other_error) auto
  ultimately show ?thesis
    using False by simp
qed

theorem error_classified_by_message_witness:
  "saveUrlP (Dropbox config0) (\<lambda>i rq. Body oauth_body) job0 world0 =
     Some (Rejected (Error (JStr ''Invalid OAuth token'')), job0\<lparr>retry := Some 0\<rparr>,
           \<lparr>sent = 1, delays = [], logged = []\<rparr>)
   \<and> saveUrl (Dropbox config0) (\<lambda>t. Some oauth_body) (\<lambda>i rq. ''{\"error\": \"Invalid OAuth token\"}'')
       job0 world0 =
     Some (Rejected (Error (JStr ''Invalid OAuth token'')), job0\<lparr>retry := Some 0\<rparr>,
           \<lparr>sent = 1, delays = [], logged = []\<rparr>)"
  using error_classified_by_message
    [of "[(''error'', JStr ''Invalid OAuth token'')]" "''Invalid OAuth token''"
        "\<lambda>i rq. Body oauth_body" world0 job0 "\<lambda>t. Some oauth_body"
        "\<lambda>i rq. ''{\"error\": \"Invalid OAuth token\"}''" "Dropbox config0"]
  by (simp add: oauth_body_def member_def lock_text_def sublist_Cons_right world0_def
      job0_def retry_or_0_def)

text \<open>
  Claim C4. A response text that does not parse is a parse error handed back at once by
  \<^verbatim>\<open>saveUrl\<close>, after one request and with no retry (\<open>saveUrl_malformed\<close> above).
  \<^verbatim>\<open>saveUrlP\<close> has no such branch: it leaves the parsing to the HTTP client, which
  hands over the text itself when it does not parse, and the text has no \<open>error\<close>
  property, so the promise is resolved with it, as for an accepted job.
\<close>

theorem saveUrlP_resolves_unparsed_text:
  "saveUrlP (Dropbox config0) (\<lambda>i rq. Body (JStr bad_gateway)) job0 world0 =
     Some (Resolved (JStr bad_gateway), job0\<lparr>retry := Some 0\<rparr>,
           \<lparr>sent = 1, delays = [], logged = []\<rparr>)"
  by (subst saveUrlP.simps) (simp add: Let_def world0_def job0_def retry_or_0_def)

text \<open>
  Claim C10. The test for the end of the retries is an equality on the count after the
  increment, so it ends the retries only for a job whose count is below \<open>maxRetry\<close>.
  Against a provider that answers every request with the lock-contention error, such a
  job ends with \<^verbatim>\<open>Retries failed\<close> after \<open>maxRetry\<close> minus the count requests, in
  both variants; a job whose count is \<open>maxRetry\<close> or more has no result in either
  variant. For such a job the retries have no bound: for every \<open>k\<close>, when the provider
  answers \<open>k\<close> requests with the lock-contention error and the next one with a
  pending response, each of the \<open>k\<close> errors is retried, after the delays
  \<open>300 * (count + 1)\<close>, ..., \<open>300 * (count + k)\<close>, and the call ends with the pending
  response after \<open>k + 1\<close> requests, never with \<^verbatim>\<open>Retries failed\<close>.
\<close>

theorem retries_unbounded_from_maxRetry:
  "((\<forall>i. lock_reply (provider i (options p))) \<and>
    (\<forall>i. lock_parsed parse (texts i (options p))) \<longrightarrow>
      (if retry_or_0 (retry p) < maxRetry this
       then saveUrlP this provider p w =
              Some (Rejected (Error (JStr ''Retries failed'')),
                    p\<lparr>retry := Some (maxRetry this)\<rparr>,
                    w\<lparr>sent := sent w + nat (maxRetry this - retry_or_0 (retry p)),
                      logged := logged w @
                        map (\<lambda>j. Retrying (retry_or_0 (retry p) + int j))
                          [1..<nat (maxRetry this - retry_or_0 (retry p))],
                      delays := delays w @
                        map (\<lambda>j. 300 * (retry_or_0 (retry p) + int j))
                          [1..<nat (maxRetry this - retry_or_0 (retry p))]\<rparr>)
            \<and> saveUrl this parse texts p w =
              Some (Rejected (Error (JStr ''Retries failed'')),
                    p\<lparr>retry := Some (maxRetry this)\<rparr>,
                    w\<lparr>sent := sent w + nat (maxRetry this - retry_or_0 (retry p)),
                      delays := delays w @
                        map (\<lambda>j. 300 * (retry_or_0 (retry p) + int j))
                          [1..<nat (maxRetry this - retry_or_0 (retry p))]\<rparr>)
       else saveUrlP this provider p w = None \<and> saveUrl this parse texts p w = None))
   \<and> (maxRetry this \<le> retry_or_0 (retry p) \<and>
       (\<forall>i<k. lock_reply (provider (sent w + i) (options p))) \<and>
       provider (sent w + k) (options p) = Body (pending J) \<longrightarrow>
         saveUrlP this provider p w =
           Some (Resolved (pending J),
                 p\<lparr>retry := Some (retry_or_0 (retry p) + int k)\<rparr>,
                 w\<lparr>sent := Suc (sent w + k),
                   delays := delays w @
                     map (\<lambda>j. 300 * (retry_or_0 (retry p) + int j)) [1..<Suc k],
                   logged := logged w @
                     map (\<lambda>j. Retrying (retry_or_0 (retry p) + int j)) [1..<Suc k] @
                     (if 0 < retry_or_0 (retry p) + int k
                      then [Completed (retry_or_0 (retry p) + int k)] else [])\<rparr>))
   \<and> (maxRetry this \<le> retry_or_0 (retry p) \<and>
       (\<forall>i<k. lock_parsed parse (texts (sent w + i) (options p))) \<and>
       parse (texts (sent w + k) (options p)) = Some (pending J) \<longrightarrow>
         saveUrl this parse texts p w =
           Some (Resolved (pending J),
                 p\<lparr>retry := Some (retry_or_0 (retry p) + int k)\<rparr>,
                 w\<lparr>sent := Suc (sent w + k),
                   delays := delays w @
                     map (\<lambda>j. 300 * (retry_or_0 (retry p) + int j)) [1..<Suc k],
                   logged := logged w @
                     (if 0 < retry_or_0 (retry p) + int k
                      then [Completed (retry_or_0 (retry p) + int k)] else [])\<rparr>))"
proof (intro conjI impI)
  assume a: "(\<forall>i. lock_reply (provider i (options p))) \<and>
    (\<forall>i. lock_parsed parse (texts i (options p)))"
  show "if retry_or_0 (retry p) < maxRetry this
       then saveUrlP this provider p w =
              Some (Rejected (Error (JStr ''Retries failed'')),
                    p\<lparr>retry := Some (maxRetry this)\<rparr>,
                    w\<lparr>sent := sent w + nat (maxRetry this - retry_or_0 (retry p)),
                      logged := logged w @
                        map (\<lambda>j. Retrying (retry_or_0 (retry p) + int j))
                          [1..<nat (maxRetry this - retry_or_0 (retry p))],
                      delays := delays w @
                        map (\<lambda>j. 300 * (retry_or_0 (retry p) + int j))
                          [1..<nat (maxRetry this - retry_or_0 (retry p))]\<rparr>)
            \<and> saveUrl this parse texts p w =
              Some (Rejected (Error (JStr ''Retries failed'')),
                    p\<lparr>retry := Some (maxRetry this)\<rparr>,
                    w\<lparr>sent := sent w + nat (maxRetry this - retry_or_0 (retry p)),
                      delays := delays w @
                        map (\<lambda>j. 300 * (retry_or_0 (retry p) + int j))
                          [1..<nat (maxRetry this - retry_or_0 (retry p))]\<rparr>)
       else saveUrlP this provider p w = None \<and> saveUrl this parse texts p w = None"
  proof (cases "retry_or_0 (retry p) < maxRetry this")
    case True
    then obtain n where n: "nat (maxRetry this - retry_or_0 (retry p)) = Suc n"
      by (cases "nat (maxRetry this - retry_or_0 (retry p))") auto
    have "saveUrlP this provider p w =
              Some (Rejected (Error (JStr ''Retries failed'')),
                    p\<lparr>retry := Some (maxRetry this)\<rparr>,
                    w\<lparr>sent := sent w + Suc n,
                      logged := logged w @ retrying (retry_or_0 (retry p)) n,
                      delays := delays w @ backoff (retry_or_0 (retry p)) n\<rparr>)"
      using saveUrlP_exhausted [of provider p this w] a True by (simp add: n)
    moreover have "saveUrl this parse texts p w =
              Some (Rejected (Error (JStr ''Retries failed'')),
                    p\<lparr>retry := Some (maxRetry this)\<rparr>,
                    w\<lparr>sent := sent w + Suc n,
                      delays := delays w @ backoff (retry_or_0 (retry p)) n\<rparr>)"
      using saveUrl_exhausted [of parse texts p this n w] a n by simp
    ultimately show ?thesis
      using True by (simp only: n backoff_def retrying_def if_True simp_thms)
  next
    case False
    have "saveUrlP this provider p w = None"
      using saveUrlP_diverges [of this provider p w] a False
      by (cases "saveUrlP this provider p w") auto
    moreover have "saveUrl this parse texts p w = None"
      using saveUrl_diverges [of this parse texts p w] a False
      by (cases "saveUrl this parse texts p w") auto
    ultimately show ?thesis
      using False by simp
  qed
next
  assume a: "maxRetry this \<le> retry_or_0 (retry p) \<and>
       (\<forall>i<k. lock_reply (provider (sent w + i) (options p))) \<and>
       provider (sent w + k) (options p) = Body (pending J)"
  show "saveUrlP this provider p w =
           Some (Resolved (pending J),
                 p\<lparr>retry := Some (retry_or_0 (retry p) + int k)\<rparr>,
                 w\<lparr>sent := Suc (sent w + k),
                   delays := delays w @
                     map (\<lambda>j. 300 * (retry_or_0 (retry p) + int j)) [1..<Suc k],
                   logged := logged w @
                     map (\<lambda>j. Retrying (retry_or_0 (retry p) + int j)) [1..<Suc k] @
                     (if 0 < retry_or_0 (retry p) + int k
                      then [Completed (retry_or_0 (retry p) + int k)] else [])\<rparr>)"
  proof -
    from a have "\<forall>i<k. lock_reply (provider (sent w + i) (options p))"
      and "provider (sent w + k) (options p) = Body (pending J)"
      and "retry_or_0 (retry p) + int k < maxRetry this \<or> maxRetry this \<le> retry_or_0 (retry p)"
      by simp_all
    from saveUrlP_accepted [of k provider w p "pending J" this, OF this(1,2) own_error_pending this(3)]
    show ?thesis by (simp only: backoff_def retrying_def)
  qed
next
  assume a: "maxRetry this \<le> retry_or_0 (retry p) \<and>
       (\<forall>i<k. lock_parsed parse (texts (sent w + i) (options p))) \<and>
       parse (texts (sent w + k) (options p)) = Some (pending J)"
  show "saveUrl this parse texts p w =
           Some (Resolved (pending J),
                 p\<lparr>retry := Some (retry_or_0 (retry p) + int k)\<rparr>,
                 w\<lparr>sent := Suc (sent w + k),
                   delays := delays w @
                     map (\<lambda>j. 300 * (retry_or_0 (retry p) + int j)) [1..<Suc k],
                   logged := logged w @
                     (if 0 < retry_or_0 (retry p) + int k
                      then [Completed (retry_or_0 (retry p) + int k)] else [])\<rparr>)"
  proof -
    from a have "\<forall>i<k. lock_parsed parse (texts (sent w + i) (options p))"
      and "parse (texts (sent w + k) (options p)) = Some (pending J)"
      and "retry_or_0 (retry p) + int k < maxRetry this \<or> maxRetry this \<le> retry_or_0 (retry p)"
      by simp_all
    from saveUrl_accepted [of k parse texts w p "pending J" this, OF this(1,2) own_error_pending this(3)]
    show ?thesis by (simp only: backoff_def)
  qed
qed

theorem retries_unbounded_from_maxRetry_witness:
  "saveUrlP (Dropbox config0) (\<lambda>i rq. Body lock_body) (job0\<lparr>retry := Some 5\<rparr>) world0 = None
   \<and> saveUrl (Dropbox config0) (\<lambda>t. Some lock_body) (\<lambda>i rq. []) (job0\<lparr>retry := Some 5\<rparr>) world0
       = None
   \<and> saveUrlP (Dropbox config0)
        (\<lambda>i rq. if i < 7 then Body lock_body else Body (pending ''J''))
        (job0\<lparr>retry := Some 5\<rparr>) world0 =
       Some (Resolved (pending ''J''), job0\<lparr>retry := Some 12\<rparr>,
             \<lparr>sent = 8, delays = [1800, 2100, 2400, 2700, 3000, 3300, 3600],
              logged = [Retrying 6, Retrying 7, Retrying 8, Retrying 9, Retrying 10,
                        Retrying 11, Retrying 12, Completed 12]\<rparr>)
   \<and> saveUrl (Dropbox config0)
        (\<lambda>t. if t = ''lock'' then Some lock_body else Some (pending ''J''))
        (\<lambda>i rq. if i < 7 then ''lock'' else ''ok'')
        (job0\<lparr>retry := Some 5\<rparr>) world0 =
       Some (Resolved (pending ''J''), job0\<lparr>retry := Some 12\<rparr>,
             \<lparr>sent = 8, delays = [1800, 2100, 2400, 2700, 3000, 3300, 3600],
              logged = [Completed 12]\<rparr>)"
proof -
  note t = retries_unbounded_from_maxRetry
    [where this = "Dropbox config0" and p = "job0\<lparr>retry := Some 5\<rparr>" and w = world0 and k = 7
       and J = "''J''"]
  have 1: "saveUrlP (Dropbox config0) (\<lambda>i rq. Body lock_body) (job0\<lparr>retry := Some 5\<rparr>) world0 = None
     \<and> saveUrl (Dropbox config0) (\<lambda>t. Some lock_body) (\<lambda>i rq. []) (job0\<lparr>retry := Some 5\<rparr>) world0
         = None"
    using t [where provider = "\<lambda>i rq. Body lock_body" and parse = "\<lambda>t. Some lock_body"
        and texts = "\<lambda>i rq. []"]
    by (simp add: lock_reply_def lock_parsed_def)
  have 2: "saveUrlP (Dropbox config0)
        (\<lambda>i rq. if i < 7 then Body lock_body else Body (pending ''J''))
        (job0\<lparr>retry := Some 5\<rparr>) world0 =
       Some (Resolved (pending ''J''), job0\<lparr>retry := Some 12\<rparr>,
             \<lparr>sent = 8, delays = [1800, 2100, 2400, 2700, 3000, 3300, 3600],
              logged = [Retrying 6, Retrying 7, Retrying 8, Retrying 9, Retrying 10,
                        Retrying 11, Retrying 12, Completed 12]\<rparr>)"
    using t [where provider = "\<lambda>i rq. if i < 7 then Body lock_body else Body (pending ''J'')"
        and parse = "\<lambda>t. Some lock_body" and texts = "\<lambda>i rq. []"]
    by (simp add: lock_reply_def world0_def upt_rec)
  have 3: "saveUrl (Dropbox config0)
        (\<lambda>t. if t = ''lock'' then Some lock_body else Some (pending ''J''))
        (\<lambda>i rq. if i < 7 then ''lock'' else ''ok'')
        (job0\<lparr>retry := Some 5\<rparr>) world0 =
       Some (Resolved (pending ''J''), job0\<lparr>retry := Some 12\<rparr>,
             \<lparr>sent = 8, delays = [1800, 2100, 2400, 2700, 3000, 3300, 3600],
              logged = [Completed 12]\<rparr>)"
    using t [where provider = "\<lambda>i rq. Body lock_body"
        and parse = "\<lambda>t. if t = ''lock'' then Some lock_body else Some (pending ''J'')"
        and texts = "\<lambda>i rq. if i < 7 then ''lock'' else ''ok''"]
    by (simp add: lock_parsed_def world0_def upt_rec)
  from 1 2 3 show ?thesis by simp
qed

section \<open>The saved sets and the counters\<close>


lemma digits_nonempty: "digits n \<noteq> []"
  by (subst digits.simps) simp

lemma decimal_nonempty: "decimal i \<noteq> []"
  by (simp add: decimal_def digits_nonempty)

lemma truthy_text_decimal [simp]: "truthy_text (map_option decimal r) = (r \<noteq> None)"
  by (cases r) (simp_all add: truthy_text_def decimal_nonempty)

lemma getRedisCacheKey_inject [simp]: "getRedisCacheKey u = getRedisCacheKey u' \<longleftrightarrow> u = u'"
  by (simp add: getRedisCacheKey_def)

lemma cache_key_not_user_count [simp]: "getRedisCacheKey u \<noteq> getUserSavedCountKey u'"
proof
  assume "getRedisCacheKey u = getUserSavedCountKey u'"
  then have "last (getRedisCacheKey u) = last (getUserSavedCountKey u')" by simp
  then show False by (simp add: getRedisCacheKey_def getUserSavedCountKey_def)
qed

lemma cache_key_not_total_count [simp]: "getRedisCacheKey u \<noteq> totalSavedCountKey"
proof
  assume "getRedisCacheKey u = totalSavedCountKey"
  then have "last (getRedisCacheKey u) = last totalSavedCountKey" by simp
  then show False by (simp add: getRedisCacheKey_def totalSavedCountKey_def)
qed

lemma zadd_all_scored:
  "zadd_all z (map (\<lambda>m. (now, m)) ms) = (\<lambda>x. if x \<in> set ms then Some now else z x)"
  by (induction ms arbitrary: z) (auto simp: fun_eq_iff)

lemma checkMediaSaved_eq:
  "checkMediaSaved st u m =
     (case st (getRedisCacheKey u) of
        None \<Rightarrow> (Resolved False, st)
      | Some (RInt v) \<Rightarrow> (Thrown WrongType, st)
      | Some (RZSet z) \<Rightarrow> (Resolved (z m \<noteq> None), st))"
  by (simp add: checkMediaSaved_def zscore_def truthy_text_def decimal_nonempty
      split: option.split rvalue.split)

lemma saveLikedMedia_replace:
  "saveLikedMedia st u ids (Some True) now =
     (if media_list ids = [] then (Thrown WrongArity, st(getRedisCacheKey u := None))
      else (Resolved (),
            st(getRedisCacheKey u \<mapsto> RZSet (\<lambda>x. if x \<in> set (media_list ids) then Some now else None))))"
  by (simp add: saveLikedMedia_def zadd_def del_def zadd_all_scored)

lemma saveLikedMedia_add:
  assumes "r \<noteq> Some True"
  shows "saveLikedMedia st u ids r now =
     (if media_list ids = [] then (Thrown WrongArity, st)
      else case st (getRedisCacheKey u) of
             None \<Rightarrow> (Resolved (),
                st(getRedisCacheKey u \<mapsto> RZSet (\<lambda>x. if x \<in> set (media_list ids) then Some now else None)))
           | Some (RInt v) \<Rightarrow> (Thrown WrongType, st)
           | Some (RZSet z) \<Rightarrow> (Resolved (),
                st(getRedisCacheKey u \<mapsto> RZSet (\<lambda>x. if x \<in> set (media_list ids) then Some now else z x))))"
  using assms
  by (simp add: saveLikedMedia_def zadd_def zadd_all_scored split: option.split rvalue.split)






lemma incrby_eq:
  assumes "\<not> holds_zset st k" and "int64 n" and "int64 (counter st k + n)"
  shows "incrby st k n = Inr (counter st k + n, st(k \<mapsto> RInt (counter st k + n)))"
  using assms
  by (auto simp: incrby_def holds_zset_def counter_def split: option.splits rvalue.splits)

lemma incrby_Inr:
  assumes "incrby st k n = Inr (v, st')"
  shows "v = counter st k + n \<and> st' = st(k \<mapsto> RInt v)"
  using assms
  by (auto simp: incrby_def counter_def split: option.splits rvalue.splits if_splits)

text \<open>
  Claim C8. \<^verbatim>\<open>incUserSavedCount\<close> and \<^verbatim>\<open>incTotalSavedCount\<close> resolve with true if
  and only if the counter is not 0 after the increment. Whenever the server accepts the
  increment (the key holds no sorted set, and the increment and the sum are integers of
  the server) the promise is resolved, with that truth value, and the counter is the
  old one plus the increment; and whenever the promise is resolved with \<open>b\<close>, \<open>b\<close>
  says whether the new counter is not 0. So an increment of a zero or missing counter
  by 0 resolves with false.
\<close>

theorem increment_reply_truthy:
  "(\<not> holds_zset st (getUserSavedCountKey u) \<and> int64 n
      \<and> int64 (counter st (getUserSavedCountKey u) + n) \<longrightarrow>
      incUserSavedCount st u n =
        (Resolved (counter st (getUserSavedCountKey u) + n \<noteq> 0),
         st(getUserSavedCountKey u \<mapsto> RInt (counter st (getUserSavedCountKey u) + n))))
   \<and> (incUserSavedCount st u n = (Resolved b, st') \<longrightarrow>
        counter st' (getUserSavedCountKey u) = counter st (getUserSavedCountKey u) + n
        \<and> b = (counter st' (getUserSavedCountKey u) \<noteq> 0))
   \<and> (\<not> holds_zset st totalSavedCountKey \<and> int64 n
      \<and> int64 (counter st totalSavedCountKey + n) \<longrightarrow>
      incTotalSavedCount st n =
        (Resolved (counter st totalSavedCountKey + n \<noteq> 0),
         st(totalSavedCountKey \<mapsto> RInt (counter st totalSavedCountKey + n))))
   \<and> (incTotalSavedCount st n = (Resolved b, st') \<longrightarrow>
        counter st' totalSavedCountKey = counter st totalSavedCountKey + n
        \<and> b = (counter st' totalSavedCountKey \<noteq> 0))"
proof (intro conjI impI)
  assume "\<not> holds_zset st (getUserSavedCountKey u) \<and> int64 n
      \<and> int64 (counter st (getUserSavedCountKey u) + n)"
  then show "incUserSavedCount st u n =
        (Resolved (counter st (getUserSavedCountKey u) + n \<noteq> 0),
         st(getUserSavedCountKey u \<mapsto> RInt (counter st (getUserSavedCountKey u) + n)))"
    by (simp add: incUserSavedCount_def incrby_eq truthy_int_def)
next
  assume "\<not> holds_zset st totalSavedCountKey \<and> int64 n
      \<and> int64 (counter st totalSavedCountKey + n)"
  then show "incTotalSavedCount st n =
        (Resolved (counter st totalSavedCountKey + n \<noteq> 0),
         st(totalSavedCountKey \<mapsto> RInt (counter st totalSavedCountKey + n)))"
    by (simp add: incTotalSavedCount_def incrby_eq truthy_int_def)
next
  assume a: "incUserSavedCount st u n = (Resolved b, st')"
  then obtain v where v: "incrby st (getUserSavedCountKey u) n = Inr (v, st')" "b = (v \<noteq> 0)"
    by (auto simp: incUserSavedCount_def truthy_int_def split: sum.splits)
  from incrby_Inr [OF v(1)] v(2)
  show "counter st' (getUserSavedCountKey u) = counter st (getUserSavedCountKey u) + n"
    and "b = (counter st' (getUserSavedCountKey u) \<noteq> 0)"
    by (simp_all add: counter_def)
next
  assume a: "incTotalSavedCount st n = (Resolved b, st')"
  then obtain v where v: "incrby st totalSavedCountKey n = Inr (v, st')" "b = (v \<noteq> 0)"
    by (auto simp: incTotalSavedCount_def truthy_int_def split: sum.splits)
  from incrby_Inr [OF v(1)] v(2)
  show "counter st' totalSavedCountKey = counter st totalSavedCountKey + n"
    and "b = (counter st' totalSavedCountKey \<noteq> 0)"
    by (simp_all add: counter_def)
qed

theorem increment_reply_truthy_witness:
  "incUserSavedCount Map.empty ''7'' 0 =
     (Resolved False, [getUserSavedCountKey ''7'' \<mapsto> RInt 0])
   \<and> incTotalSavedCount Map.empty 0 = (Resolved False, [totalSavedCountKey \<mapsto> RInt 0])
   \<and> incUserSavedCount [getUserSavedCountKey ''7'' \<mapsto> RInt 0] ''7'' 3 =
     (Resolved True, [getUserSavedCountKey ''7'' \<mapsto> RInt 3])
   \<and> counter [getUserSavedCountKey ''7'' \<mapsto> RInt 3] (getUserSavedCountKey ''7'') = 3"
  using increment_reply_truthy [of Map.empty "''7''" 0 False "[getUserSavedCountKey ''7'' \<mapsto> RInt 0]"]
    increment_reply_truthy [of "[getUserSavedCountKey ''7'' \<mapsto> RInt 0]" "''7''" 3 True
      "[getUserSavedCountKey ''7'' \<mapsto> RInt 3]"]
  by (simp add: holds_zset_def int64_def counter_def)




lemma incrby_counter_mono:
  assumes "0 \<le> n"
  shows "counter st k \<le> counter (case incrby st k' n of Inl e \<Rightarrow> st | Inr (v, st') \<Rightarrow> st') k"
proof (cases "incrby st k' n")
  case (Inl e)
  then show ?thesis by simp
next
  case (Inr r)
  obtain v st' where r: "r = (v, st')" by (cases r)
  from incrby_Inr [of st k' n v st'] Inr r
  have "v = counter st k' + n" "st' = st(k' \<mapsto> RInt v)" by simp_all
  then show ?thesis
    using Inr r assms by (simp add: counter_def)
qed

lemma snd_incUserSavedCount:
  "snd (incUserSavedCount st u n) =
     (case incrby st (getUserSavedCountKey u) n of Inl e \<Rightarrow> st | Inr (v, st') \<Rightarrow> st')"
  by (simp add: incUserSavedCount_def split: sum.split prod.split)

lemma snd_incTotalSavedCount:
  "snd (incTotalSavedCount st n) =
     (case incrby st totalSavedCountKey n of Inl e \<Rightarrow> st | Inr (v, st') \<Rightarrow> st')"
  by (simp add: incTotalSavedCount_def split: sum.split prod.split)

lemma incrby_other_key:
  assumes "k \<noteq> k'"
  shows "(case incrby st k' n of Inl e \<Rightarrow> st | Inr (v, st') \<Rightarrow> st') k = st k"
proof (cases "incrby st k' n")
  case (Inl e)
  then show ?thesis by simp
next
  case (Inr r)
  obtain v st' where r: "r = (v, st')" by (cases r)
  from incrby_Inr [of st k' n v st'] Inr r
  have "st' = st(k' \<mapsto> RInt v)" by simp
  then show ?thesis
    using Inr r assms by simp
qed

lemma saveLikedMedia_other_key:
  assumes "k \<noteq> getRedisCacheKey u"
  shows "snd (saveLikedMedia st u ms r now) k = st k"
proof (cases "r = Some True")
  case True
  then show ?thesis
    using assms by (simp add: saveLikedMedia_replace)
next
  case False
  then show ?thesis
    using assms by (simp add: saveLikedMedia_add split: option.split rvalue.split)
qed

lemma exec_counter_mono:
  assumes "\<not> decrements c" and "\<forall>u. k \<noteq> getRedisCacheKey u"
  shows "counter st k \<le> counter (exec st c) k"
proof (cases c)
  case (IncUser u n)
  then show ?thesis
    using assms(1) by (simp add: snd_incUserSavedCount incrby_counter_mono)
next
  case (IncTotal n)
  then show ?thesis
    using assms(1) by (simp add: snd_incTotalSavedCount incrby_counter_mono)
next
  case GetTotal
  then show ?thesis
    by (simp add: getTotalSavedCount_def split: sum.split)
next
  case (Check u m)
  then show ?thesis
    by (simp add: checkMediaSaved_def split: sum.split)
next
  case (Save u ms r now)
  then show ?thesis
    using assms(2) by (simp add: saveLikedMedia_other_key counter_def)
next
  case (Delete u)
  then show ?thesis
    using assms(2) by (simp add: deleteLikedCache_def del_def counter_def)
qed

lemma run_counter_mono:
  assumes "\<forall>c\<in>set cs. \<not> decrements c" and "\<forall>u. k \<noteq> getRedisCacheKey u"
  shows "counter st k \<le> counter (run st cs) k"
  using assms(1)
proof (induction cs arbitrary: st)
  case Nil
  show ?case by (simp add: run_def)
next
  case (Cons c cs)
  have "counter st k \<le> counter (exec st c) k"
    using Cons.prems assms(2) by (intro exec_counter_mono) auto
  also have "\<dots> \<le> counter (run (exec st c) cs) k"
    using Cons.prems by (intro Cons.IH) auto
  finally show ?case by (simp add: run_def)
qed

text \<open>
  Claim C9. Over every history of operations of the storage layer in which no
  increment has a negative count, from every store: the counter of every user and the
  total counter are at the end at least what they were at the start. No operation
  lowers or resets a counter: the increments add or are refused, and the deletions and
  the writes of saved sets go to keys that are never a counter's key.
\<close>

theorem counters_never_decrease:
  assumes "\<forall>c\<in>set cs. \<not> decrements c"
  shows "counter st (getUserSavedCountKey u) \<le> counter (run st cs) (getUserSavedCountKey u)
       \<and> counter st totalSavedCountKey \<le> counter (run st cs) totalSavedCountKey"
proof
  have "\<forall>u'. getUserSavedCountKey u \<noteq> getRedisCacheKey u'"
    by (simp add: cache_key_not_user_count [symmetric])
  with assms show "counter st (getUserSavedCountKey u) \<le> counter (run st cs) (getUserSavedCountKey u)"
    by (rule run_counter_mono)
  have "\<forall>u'. totalSavedCountKey \<noteq> getRedisCacheKey u'"
    by (simp add: cache_key_not_total_count [symmetric])
  with assms show "counter st totalSavedCountKey \<le> counter (run st cs) totalSavedCountKey"
    by (rule run_counter_mono)
qed

theorem counters_never_decrease_witness:
  "counter Map.empty (getUserSavedCountKey ''7'') = 0
   \<and> counter (run Map.empty history0) (getUserSavedCountKey ''7'') = 2
   \<and> counter (run Map.empty history0) totalSavedCountKey = 3
   \<and> 0 \<le> counter (run Map.empty history0) (getUserSavedCountKey ''7'')"
  using counters_never_decrease [of history0 Map.empty "''7''"]
  by (simp add: history0_def run_def counter_def incUserSavedCount_def incTotalSavedCount_def
      incrby_def int64_def truthy_int_def getUserSavedCountKey_def totalSavedCountKey_def
      saveLikedMedia_def zadd_def del_def getRedisCacheKey_def media_list_def
      checkMediaSaved_def zscore_def deleteLikedCache_def getTotalSavedCount_def get_def)




lemma exec_not_saved:
  assumes "zscore st (getRedisCacheKey u) m = Inr None" and "\<not> inserts u m c"
  shows "zscore (exec st c) (getRedisCacheKey u) m = Inr None"
proof (cases c)
  case (IncUser u' n)
  have "exec st c (getRedisCacheKey u) = st (getRedisCacheKey u)"
    unfolding IncUser by (simp add: snd_incUserSavedCount incrby_other_key)
  then show ?thesis
    using assms(1) by (simp add: zscore_def)
next
  case (IncTotal n)
  have "exec st c (getRedisCacheKey u) = st (getRedisCacheKey u)"
    unfolding IncTotal by (simp add: snd_incTotalSavedCount incrby_other_key)
  then show ?thesis
    using assms(1) by (simp add: zscore_def)
next
  case GetTotal
  then show ?thesis
    using assms(1) by (simp add: getTotalSavedCount_def split: sum.split)
next
  case (Check u' m')
  then show ?thesis
    using assms(1) by (simp add: checkMediaSaved_def split: sum.split)
next
  case (Delete u')
  then show ?thesis
    using assms(1) by (auto simp: deleteLikedCache_def del_def zscore_def)
next
  case (Save u' ms r now)
  show ?thesis
  proof (cases "u' = u")
    case False
    then have "exec st c (getRedisCacheKey u) = st (getRedisCacheKey u)"
      unfolding Save by (simp add: saveLikedMedia_other_key)
    then show ?thesis
      using assms(1) by (simp add: zscore_def)
  next
    case True
    with assms(2) Save have m: "m \<notin> set (media_list ms)" by simp
    show ?thesis
    proof (cases "r = Some True")
      case replace: True
      then show ?thesis
        using m by (simp add: Save \<open>u' = u\<close> saveLikedMedia_replace zscore_def)
    next
      case False
      then show ?thesis
        using m assms(1)
        by (auto simp: Save \<open>u' = u\<close> saveLikedMedia_add zscore_def
            split: option.splits rvalue.splits)
    qed
  qed
qed

lemma run_not_saved:
  assumes "zscore st (getRedisCacheKey u) m = Inr None" and "\<forall>c\<in>set cs. \<not> inserts u m c"
  shows "zscore (run st cs) (getRedisCacheKey u) m = Inr None"
  using assms
proof (induction cs arbitrary: st)
  case Nil
  then show ?case by (simp add: run_def)
next
  case (Cons c cs)
  have "zscore (exec st c) (getRedisCacheKey u) m = Inr None"
    using Cons.prems by (intro exec_not_saved) auto
  then have "zscore (run (exec st c) cs) (getRedisCacheKey u) m = Inr None"
    using Cons.prems by (intro Cons.IH) auto
  then show ?case by (simp add: run_def)
qed

lemma saveLikedMedia_one:
  assumes "r = Some True \<or> \<not> holds_int st (getRedisCacheKey u)"
    and "m \<in> set (media_list ids)"
  shows "checkMediaSaved (snd (saveLikedMedia st u ids r now)) u m =
           (Resolved True, snd (saveLikedMedia st u ids r now))
         \<and> fst (saveLikedMedia st u ids r now) = Resolved ()"
proof (cases "r = Some True")
  case True
  then show ?thesis
    using assms(2) by (auto simp: saveLikedMedia_replace checkMediaSaved_eq)
next
  case False
  with assms(1) have "\<not> holds_int st (getRedisCacheKey u)" by simp
  then show ?thesis
    using False assms(2)
    by (auto simp: saveLikedMedia_add checkMediaSaved_eq holds_int_def
        split: option.splits rvalue.splits)
qed

text \<open>
  Claim C6. For every user \<open>u\<close> and media identifier \<open>m\<close>. Never inserted: from a
  store in which \<open>m\<close> is not in the set of \<open>u\<close> (the empty store is one), after
  every history of operations none of which saves \<open>m\<close> for \<open>u\<close>,
  \<^verbatim>\<open>checkMediaSaved\<close> resolves with false. Just inserted: in the store that a
  \<^verbatim>\<open>saveLikedMedia\<close> of \<open>[m]\<close> (or of \<open>m\<close> alone) for \<open>u\<close> leaves, the next
  \<^verbatim>\<open>checkMediaSaved\<close> resolves with true; this needs that the key of the set does
  not hold a counter, which no operation of this layer brings about, or that the save
  replaces.
\<close>

theorem contains_after_insert:
  "(zscore st (getRedisCacheKey u) m = Inr None \<and> (\<forall>c\<in>set cs. \<not> inserts u m c) \<longrightarrow>
      checkMediaSaved (run st cs) u m = (Resolved False, run st cs))
   \<and> (r = Some True \<or> \<not> holds_int st (getRedisCacheKey u) \<longrightarrow>
      fst (saveLikedMedia st u (Many [m]) r now) = Resolved ()
      \<and> checkMediaSaved (snd (saveLikedMedia st u (Many [m]) r now)) u m =
          (Resolved True, snd (saveLikedMedia st u (Many [m]) r now))
      \<and> fst (saveLikedMedia st u (One m) r now) = Resolved ()
      \<and> checkMediaSaved (snd (saveLikedMedia st u (One m) r now)) u m =
          (Resolved True, snd (saveLikedMedia st u (One m) r now)))"
proof (intro conjI impI)
  assume "zscore st (getRedisCacheKey u) m = Inr None \<and> (\<forall>c\<in>set cs. \<not> inserts u m c)"
  then have "zscore (run st cs) (getRedisCacheKey u) m = Inr None"
    by (intro run_not_saved) auto
  then show "checkMediaSaved (run st cs) u m = (Resolved False, run st cs)"
    by (simp add: checkMediaSaved_def truthy_text_def)
next
  assume a: "r = Some True \<or> \<not> holds_int st (getRedisCacheKey u)"
  have many: "m \<in> set (media_list (Many [m]))" and one: "m \<in> set (media_list (One m))"
    by (simp_all add: media_list_def)
  from saveLikedMedia_one [OF a many, of now]
  show "fst (saveLikedMedia st u (Many [m]) r now) = Resolved ()"
    and "checkMediaSaved (snd (saveLikedMedia st u (Many [m]) r now)) u m =
          (Resolved True, snd (saveLikedMedia st u (Many [m]) r now))"
    by simp_all
  from saveLikedMedia_one [OF a one, of now]
  show "fst (saveLikedMedia st u (One m) r now) = Resolved ()"
    and "checkMediaSaved (snd (saveLikedMedia st u (One m) r now)) u m =
          (Resolved True, snd (saveLikedMedia st u (One m) r now))"
    by simp_all
qed

theorem contains_after_insert_witness:
  "fst (checkMediaSaved (run Map.empty history0) ''7'' ''m4'') = Resolved False
   \<and> fst (checkMediaSaved (run Map.empty history0) ''8'' ''m1'') = Resolved False
   \<and> fst (checkMediaSaved (snd (saveLikedMedia (run Map.empty history0) ''7'' (Many [''m4''])
            None 3000)) ''7'' ''m4'') = Resolved True"
  using contains_after_insert [of Map.empty "''7''" "''m4''" history0 None 3000]
    contains_after_insert [of Map.empty "''8''" "''m1''" history0 None 3000]
    contains_after_insert [of "run Map.empty history0" "''7''" "''m4''" "[]" None 3000]
  by (simp add: history0_def zscore_def holds_int_def run_def
      incUserSavedCount_def incTotalSavedCount_def
      incrby_def int64_def truthy_int_def getUserSavedCountKey_def totalSavedCountKey_def
      saveLikedMedia_def zadd_def del_def getRedisCacheKey_def media_list_def
      checkMediaSaved_def deleteLikedCache_def getTotalSavedCount_def get_def)




lemma saved_set_add:
  assumes "r \<noteq> Some True" and "\<not> holds_int st (getRedisCacheKey u)"
  shows "saved_set (snd (saveLikedMedia st u ids r now)) u =
         (\<lambda>y. if y \<in> set (media_list ids) then Some now else saved_set st u y)"
  using assms
  by (auto simp: saveLikedMedia_add saved_set_def holds_int_def fun_eq_iff
      split: option.splits rvalue.splits)

lemma checkMediaSaved_add:
  assumes "r \<noteq> Some True" and "fst (checkMediaSaved st u x) = Resolved True"
  shows "fst (checkMediaSaved (snd (saveLikedMedia st u ids r now)) u x) = Resolved True"
  using assms
  by (auto simp: saveLikedMedia_add checkMediaSaved_eq split: option.splits rvalue.splits)

text \<open>
  Claim C7. \<^verbatim>\<open>saveLikedMedia\<close> without \<^verbatim>\<open>replace\<close> (missing or false) removes
  nothing: every identifier for which \<^verbatim>\<open>checkMediaSaved\<close> was true before is still
  true after. The set after is the set before with every identifier of the call set to
  the time of the call, so an identifier that was there only has its time refreshed,
  and the members are the old ones together with the new ones: nothing caps the set at
  20 entries. The call is resolved whenever it names an identifier and the key holds no
  counter.
\<close>

theorem insert_keeps_entries:
  assumes "r \<noteq> Some True"
  shows "(fst (checkMediaSaved st u x) = Resolved True \<longrightarrow>
            fst (checkMediaSaved (snd (saveLikedMedia st u ids r now)) u x) = Resolved True)
       \<and> (\<not> holds_int st (getRedisCacheKey u) \<longrightarrow>
            saved_set (snd (saveLikedMedia st u ids r now)) u =
              (\<lambda>y. if y \<in> set (media_list ids) then Some now else saved_set st u y)
            \<and> dom (saved_set (snd (saveLikedMedia st u ids r now)) u) =
                dom (saved_set st u) \<union> set (media_list ids))
       \<and> (media_list ids \<noteq> [] \<and> \<not> holds_int st (getRedisCacheKey u) \<longrightarrow>
            fst (saveLikedMedia st u ids r now) = Resolved ())"
proof (intro conjI impI)
  assume "fst (checkMediaSaved st u x) = Resolved True"
  with assms show "fst (checkMediaSaved (snd (saveLikedMedia st u ids r now)) u x) = Resolved True"
    by (rule checkMediaSaved_add)
next
  assume h: "\<not> holds_int st (getRedisCacheKey u)"
  from saved_set_add [OF assms h]
  show s: "saved_set (snd (saveLikedMedia st u ids r now)) u =
        (\<lambda>y. if y \<in> set (media_list ids) then Some now else saved_set st u y)" .
  show "dom (saved_set (snd (saveLikedMedia st u ids r now)) u) =
          dom (saved_set st u) \<union> set (media_list ids)"
    unfolding s by (auto simp: dom_def)
next
  assume "media_list ids \<noteq> [] \<and> \<not> holds_int st (getRedisCacheKey u)"
  then show "fst (saveLikedMedia st u ids r now) = Resolved ()"
    using assms
    by (auto simp: saveLikedMedia_add holds_int_def split: option.splits rvalue.splits)
qed

lemma letters_saved: "dom (saved_set store21 ''U1'') = set letters"
  by (simp add: saved_set_def store21_def dom_map_of_conv_image_fst image_image)

theorem insert_keeps_entries_witness:
  "fst (checkMediaSaved (snd (saveLikedMedia store21 ''U1'' (Many [''v'']) None 2000)) ''U1'' ''a'')
     = Resolved True
   \<and> dom (saved_set (snd (saveLikedMedia store21 ''U1'' (Many [''v'']) None 2000)) ''U1'')
     = set letters \<union> {''v''}
   \<and> saved_set (snd (saveLikedMedia store21 ''U1'' (Many [''a'']) (Some False) 2000)) ''U1'' ''a''
     = Some 2000
   \<and> card (set letters \<union> {''v''}) = 22"
proof -
  have c: "fst (checkMediaSaved store21 ''U1'' ''a'') = Resolved True"
    by (simp add: checkMediaSaved_eq store21_def letters_def)
  have h: "\<not> holds_int store21 (getRedisCacheKey ''U1'')"
    by (simp add: holds_int_def store21_def)
  have 1: "fst (checkMediaSaved (snd (saveLikedMedia store21 ''U1'' (Many [''v'']) None 2000))
             ''U1'' ''a'') = Resolved True"
    using insert_keeps_entries [of None store21 "''U1''" "''a''" "Many [''v'']" 2000] c
    by simp
  have "dom (saved_set (snd (saveLikedMedia store21 ''U1'' (Many [''v'']) None 2000)) ''U1'')
          = dom (saved_set store21 ''U1'') \<union> set (media_list (Many [''v'']))"
    using insert_keeps_entries [of None store21 "''U1''" "''a''" "Many [''v'']" 2000] h
    by blast
  then have 2: "dom (saved_set (snd (saveLikedMedia store21 ''U1'' (Many [''v'']) None 2000)) ''U1'')
             = set letters \<union> {''v''}"
    by (simp add: letters_saved media_list_def)
  have 3: "saved_set (snd (saveLikedMedia store21 ''U1'' (Many [''a'']) (Some False) 2000)) ''U1''
             ''a'' = Some 2000"
    using insert_keeps_entries [of "Some False" store21 "''U1''" "''a''" "Many [''a'']" 2000] h
    by (simp add: media_list_def)
  have 4: "card (set letters \<union> {''v''}) = 22"
    by (simp add: letters_def)
  from 1 2 3 4 show ?thesis by simp
qed


end
